theory Spec2Isabelle
  imports Main "HOL-Library.Char_ord"
begin

section \<open>Strings and numbers\<close>

text \<open>
  JavaScript strings are modelled as \<^typ>\<open>string\<close>, the list of the bytes of their UTF-8
  encoding; every literal of the source is ASCII but for one em dash in a summary text.
  The banner of a probe alone, which the code cuts by position, is kept as the list of
  its UTF-16 code units.
  Port numbers, scores and counters are natural numbers; time stamps, the requested
  concurrency and the requested timeout are integers.
\<close>

definition digit_char :: "nat \<Rightarrow> char" where
  "digit_char d =
     (if d = 0 then CHR ''0'' else if d = 1 then CHR ''1'' else if d = 2 then CHR ''2''
      else if d = 3 then CHR ''3'' else if d = 4 then CHR ''4'' else if d = 5 then CHR ''5''
      else if d = 6 then CHR ''6'' else if d = 7 then CHR ''7'' else if d = 8 then CHR ''8''
      else CHR ''9'')"

text \<open>The decimal text of a non-negative integer, as a template literal prints it.\<close>

function num_to_string :: "nat \<Rightarrow> string" where
  "num_to_string n =
     (if n < 10 then [digit_char n] else num_to_string (n div 10) @ [digit_char (n mod 10)])"
  by pat_completeness auto
termination
  by (relation "measure (\<lambda>n. n)") auto

declare num_to_string.simps [simp del]

section \<open>The risk analyzer (server/services/aiEngine.ts)\<close>

text \<open>
  A severity is kept as the string it is at run time: \<open>SEVERITY_SCORES\<close> is a
  \<open>Record<string, number>\<close> and the lookup falls back to 5 for a key it does not hold.
\<close>

record vuln_entry =
  severity :: string
  title :: string
  description :: string
  remediation :: string

record Vulnerability = vuln_entry +
  port :: nat

record PortInsight =
  port :: nat
  riskLevel :: string
  title :: string
  shortDesc :: string

record SecurityReport =
  riskScore :: nat
  vulnerabilities :: "Vulnerability list"
  summary :: string

record open_port =
  port :: nat
  banner :: "string option"

definition mk_entry :: "string \<Rightarrow> string \<Rightarrow> string \<Rightarrow> string \<Rightarrow> vuln_entry" where
  "mk_entry s t d r =
     \<lparr>severity = s, vuln_entry.title = t, description = d, remediation = r\<rparr>"

definition VULN_DB_entries :: "(nat \<times> vuln_entry) list" where
  "VULN_DB_entries =
    [(21, mk_entry ''Medium'' ''FTP Service Exposed''
        ''FTP may allow anonymous access or brute-force.''
        ''Disable anonymous login; use SFTP instead.''),
     (22, mk_entry ''Low'' ''SSH Service Exposed''
        ''SSH is exposed to brute-force attacks.''
        ''Use key-based auth; disable password login.''),
     (23, mk_entry ''High'' ''Telnet Plaintext Protocol''
        ''Telnet sends all data in cleartext.''
        ''Disable Telnet; migrate to SSH.''),
     (25, mk_entry ''Medium'' ''SMTP Open Relay Risk''
        ''SMTP may be an open relay for spam.''
        ''Restrict relay; enable authentication.''),
     (53, mk_entry ''Low'' ''DNS Service Exposed''
        ''DNS may be vulnerable to amplification.''
        ''Restrict recursive queries; use rate limiting.''),
     (80, mk_entry ''Low'' ''Unencrypted HTTP''
        ''HTTP traffic is unencrypted.''
        ''Enforce HTTPS with TLS certificates.''),
     (110, mk_entry ''Medium'' ''POP3 Plaintext Risk''
        ''POP3 sends credentials in cleartext.''
        ''Use POP3S (port 995) with TLS.''),
     (135, mk_entry ''High'' ''Windows RPC Exposed''
        ''MSRPC is a common attack vector.''
        ''Block port 135 at the firewall.''),
     (139, mk_entry ''High'' ''NetBIOS Session Service''
        ''NetBIOS enables SMB enumeration.''
        ''Disable NetBIOS over TCP/IP.''),
     (143, mk_entry ''Medium'' ''IMAP Plaintext Risk''
        ''IMAP sends credentials in cleartext.''
        ''Use IMAPS (port 993) with TLS.''),
     (443, mk_entry ''Low'' ''HTTPS Service''
        ''Encrypted, but check TLS version.''
        ''Ensure TLS 1.2+ and valid certificates.''),
     (445, mk_entry ''High'' ''SMB Service Exposed''
        ''SMB is frequently targeted (EternalBlue).''
        ''Block port 445 externally; patch SMB.''),
     (1433, mk_entry ''High'' ''MSSQL Exposed''
        ''Database should not be public.''
        ''Restrict to trusted IPs; use VPN.''),
     (1521, mk_entry ''High'' ''Oracle DB Exposed''
        ''Oracle DB should not be public.''
        ''Restrict to trusted IPs; use VPN.''),
     (3306, mk_entry ''High'' ''MySQL Database Exposed''
        ''MySQL should not be on the public internet.''
        ''Restrict to trusted IPs; use VPN.''),
     (3389, mk_entry ''High'' ''RDP Service Exposed''
        ''RDP is a major ransomware vector.''
        ''Use VPN; enable NLA; limit access.''),
     (5432, mk_entry ''High'' ''PostgreSQL Exposed''
        ''Database should not be public.''
        ''Restrict to trusted IPs; use VPN.''),
     (5900, mk_entry ''High'' ''VNC Service Exposed''
        ''VNC may have weak or no authentication.''
        ''Use SSH tunnel; enforce strong auth.''),
     (6379, mk_entry ''Critical'' ''Redis No Auth''
        ''Redis often runs without authentication.''
        ''Enable AUTH; bind to localhost only.''),
     (8080, mk_entry ''Low'' ''HTTP Proxy/Alt Service''
        ''Alternative HTTP service detected.''
        ''Ensure proper access controls.''),
     (8443, mk_entry ''Low'' ''HTTPS Alt Service''
        ''Alternative HTTPS service detected.''
        ''Verify TLS configuration.''),
     (27017, mk_entry ''Critical'' ''MongoDB No Auth''
        ''MongoDB may lack authentication.''
        ''Enable auth; restrict via firewall.'')]"

definition VULN_DB :: "nat \<rightharpoonup> vuln_entry" where
  "VULN_DB = map_of VULN_DB_entries"

definition SEVERITY_SCORES :: "string \<rightharpoonup> nat" where
  "SEVERITY_SCORES =
     map_of [(''Critical'', 40), (''High'', 25), (''Medium'', 15), (''Low'', 5)]"

text \<open>
  \<open>analyzePort(port, banner?)\<close> has the return type \<open>PortInsight | null\<close>; \<open>None\<close> is
  \<open>null\<close>.
\<close>

definition analyzePort :: "nat \<Rightarrow> string option \<Rightarrow> PortInsight option" where
  "analyzePort p b =
     (case VULN_DB p of
        Some vuln \<Rightarrow>
          Some \<lparr>PortInsight.port = p, riskLevel = severity vuln,
                title = vuln_entry.title vuln, shortDesc = description vuln\<rparr>
      | None \<Rightarrow>
          Some \<lparr>PortInsight.port = p, riskLevel = ''Low'',
                title = ''Unknown Service (Port '' @ num_to_string p @ '')'',
                shortDesc = ''Open port with unrecognized service.''\<rparr>)"

text \<open>
  The body of \<open>analyze\<close>, reading the two tables it is given. The \<open>for\<close> loop threads the
  pair \<open>(vulns, score)\<close>.
\<close>

fun analyze_loop ::
  "(nat \<rightharpoonup> vuln_entry) \<Rightarrow> (string \<rightharpoonup> nat) \<Rightarrow> open_port list \<Rightarrow>
   Vulnerability list \<times> nat \<Rightarrow> Vulnerability list \<times> nat" where
  "analyze_loop db scores [] acc = acc"
| "analyze_loop db scores (p # ps) (vulns, score) =
     (case db (open_port.port p) of
        Some vuln \<Rightarrow>
          analyze_loop db scores ps
            (vulns @ [vuln_entry.extend vuln (Vulnerability.fields (open_port.port p))],
             score + (case scores (severity vuln) of Some w \<Rightarrow> w | None \<Rightarrow> 5))
      | None \<Rightarrow> analyze_loop db scores ps (vulns, score))"

definition summary_tone :: "nat \<Rightarrow> string" where
  "summary_tone finalScore =
     (if finalScore > 70 then ''CRITICAL: Immediate remediation required.''
      else if finalScore > 40 then ''WARNING: Moderate security risks found.''
      else if finalScore > 0 then
        ''Low risk '' @ [CHR 0xE2, CHR 0x80, CHR 0x94] @ '' continue monitoring.''
      else ''No known vulnerabilities detected.'')"

definition analyze_with ::
  "(nat \<rightharpoonup> vuln_entry) \<Rightarrow> (string \<rightharpoonup> nat) \<Rightarrow> open_port list \<Rightarrow> SecurityReport" where
  "analyze_with db scores ports =
     (let (vulns, score) = analyze_loop db scores ports ([], 0);
          finalScore = min 100 score;
          summary0 = ''Scan complete. Risk score: '' @ num_to_string finalScore @ ''/100. ''
                     @ num_to_string (length ports) @ '' open port(s) detected. ''
      in \<lparr>riskScore = finalScore, vulnerabilities = vulns,
          summary = summary0 @ summary_tone finalScore\<rparr>)"

definition analyze :: "open_port list \<Rightarrow> SecurityReport" where
  "analyze ports = analyze_with VULN_DB SEVERITY_SCORES ports"

text \<open>
  The module state of aiEngine.ts is its two tables. A call of \<open>analyze\<close> reads them,
  builds its accumulators afresh and writes nothing back.
\<close>

record module_state =
  VULN_DB_obj :: "nat \<rightharpoonup> vuln_entry"
  SEVERITY_SCORES_obj :: "string \<rightharpoonup> nat"

definition module_init :: module_state where
  "module_init = \<lparr>VULN_DB_obj = VULN_DB, SEVERITY_SCORES_obj = SEVERITY_SCORES\<rparr>"

definition analyze_st :: "module_state \<Rightarrow> open_port list \<Rightarrow> SecurityReport \<times> module_state" where
  "analyze_st m ports = (analyze_with (VULN_DB_obj m) (SEVERITY_SCORES_obj m) ports, m)"

subsection \<open>What the specification says of the score\<close>

definition severity_weight :: "string \<Rightarrow> nat" where
  "severity_weight s =
     (if s = ''Critical'' then 40 else if s = ''High'' then 25
      else if s = ''Medium'' then 15 else if s = ''Low'' then 5 else 5)"

definition in_table :: "open_port \<Rightarrow> bool" where
  "in_table p = (VULN_DB (open_port.port p) \<noteq> None)"

definition table_weight :: "open_port \<Rightarrow> nat" where
  "table_weight p = severity_weight (severity (the (VULN_DB (open_port.port p))))"

definition table_record :: "open_port \<Rightarrow> Vulnerability" where
  "table_record p =
     vuln_entry.extend (the (VULN_DB (open_port.port p)))
       (Vulnerability.fields (open_port.port p))"

subsection \<open>The loop in closed form\<close>

definition port_records :: "(nat \<rightharpoonup> vuln_entry) \<Rightarrow> nat \<Rightarrow> Vulnerability list" where
  "port_records db n =
     (case db n of Some vuln \<Rightarrow> [vuln_entry.extend vuln (Vulnerability.fields n)]
      | None \<Rightarrow> [])"

definition port_score :: "(nat \<rightharpoonup> vuln_entry) \<Rightarrow> (string \<rightharpoonup> nat) \<Rightarrow> nat \<Rightarrow> nat" where
  "port_score db scores n =
     (case db n of
        Some vuln \<Rightarrow> (case scores (severity vuln) of Some w \<Rightarrow> w | None \<Rightarrow> 5)
      | None \<Rightarrow> 0)"

lemma analyze_loop_closed:
  "analyze_loop db scores ps (vulns, score) =
     (vulns @ concat (map (port_records db) (map open_port.port ps)),
      score + sum_list (map (port_score db scores) (map open_port.port ps)))"
proof (induction ps arbitrary: vulns score)
  case Nil
  show ?case by simp
next
  case (Cons p ps)
  show ?case
  proof (cases "db (open_port.port p)")
    case None
    then show ?thesis by (simp add: Cons.IH port_records_def port_score_def)
  next
    case (Some vuln)
    then show ?thesis by (simp add: Cons.IH port_records_def port_score_def)
  qed
qed

lemma severity_scores_weight:
  "(case SEVERITY_SCORES s of Some w \<Rightarrow> w | None \<Rightarrow> 5) = severity_weight s"
  by (simp add: SEVERITY_SCORES_def severity_weight_def)

lemma port_score_table:
  "port_score VULN_DB SEVERITY_SCORES (open_port.port p) =
     (if in_table p then table_weight p else 0)"
  by (cases "VULN_DB (open_port.port p)")
     (simp_all add: port_score_def in_table_def table_weight_def severity_scores_weight)

lemma port_records_table:
  "port_records VULN_DB (open_port.port p) = (if in_table p then [table_record p] else [])"
  by (cases "VULN_DB (open_port.port p)")
     (simp_all add: port_records_def in_table_def table_record_def)

lemma sum_list_filter_weight:
  "sum_list (map (\<lambda>p. if in_table p then table_weight p else 0) ps) =
     sum_list (map table_weight (filter in_table ps))"
  by (induction ps) simp_all

lemma concat_filter_record:
  "concat (map (\<lambda>p. if in_table p then [table_record p] else []) ps) =
     map table_record (filter in_table ps)"
  by (induction ps) simp_all

lemma analyze_with_riskScore:
  "riskScore (analyze_with db scores ports) =
     min 100 (sum_list (map (port_score db scores) (map open_port.port ports)))"
  by (simp add: analyze_with_def analyze_loop_closed Let_def)

lemma analyze_with_vulnerabilities:
  "vulnerabilities (analyze_with db scores ports) =
     concat (map (port_records db) (map open_port.port ports))"
  by (simp add: analyze_with_def analyze_loop_closed Let_def)

lemma analyze_with_summary:
  "summary (analyze_with db scores ports) =
     ''Scan complete. Risk score: ''
     @ num_to_string (riskScore (analyze_with db scores ports)) @ ''/100. ''
     @ num_to_string (length ports) @ '' open port(s) detected. ''
     @ summary_tone (riskScore (analyze_with db scores ports))"
  by (simp add: analyze_with_def analyze_loop_closed Let_def)

lemma analyze_score:
  "riskScore (analyze ports) = min 100 (sum_list (map table_weight (filter in_table ports)))"
proof -
  have "map (port_score VULN_DB SEVERITY_SCORES) (map open_port.port ports) =
          map (\<lambda>p. if in_table p then table_weight p else 0) ports"
    by (simp add: port_score_table)
  then show ?thesis
    unfolding analyze_def analyze_with_riskScore
    by (simp only: sum_list_filter_weight)
qed

lemma analyze_vulnerabilities:
  "vulnerabilities (analyze ports) = map table_record (filter in_table ports)"
proof -
  have "map (port_records VULN_DB) (map open_port.port ports) =
          map (\<lambda>p. if in_table p then [table_record p] else []) ports"
    by (simp add: port_records_table)
  then show ?thesis
    unfolding analyze_def analyze_with_vulnerabilities
    by (simp only: concat_filter_record)
qed

lemma analyze_summary:
  "summary (analyze ports) =
     ''Scan complete. Risk score: '' @ num_to_string (riskScore (analyze ports)) @ ''/100. ''
     @ num_to_string (length ports) @ '' open port(s) detected. ''
     @ summary_tone (riskScore (analyze ports))"
  unfolding analyze_def by (rule analyze_with_summary)

lemma VULN_DB_9999: "VULN_DB 9999 = None"
  by (simp add: VULN_DB_def VULN_DB_entries_def)

lemma VULN_DB_6379:
  "VULN_DB 6379 = Some (mk_entry ''Critical'' ''Redis No Auth''
     ''Redis often runs without authentication.'' ''Enable AUTH; bind to localhost only.'')"
  by (simp add: VULN_DB_def VULN_DB_entries_def)

lemma VULN_DB_27017:
  "VULN_DB 27017 = Some (mk_entry ''Critical'' ''MongoDB No Auth''
     ''MongoDB may lack authentication.'' ''Enable auth; restrict via firewall.'')"
  by (simp add: VULN_DB_def VULN_DB_entries_def)

lemma VULN_DB_23:
  "VULN_DB 23 = Some (mk_entry ''High'' ''Telnet Plaintext Protocol''
     ''Telnet sends all data in cleartext.'' ''Disable Telnet; migrate to SSH.'')"
  by (simp add: VULN_DB_def VULN_DB_entries_def)

lemma num_to_string_100: "num_to_string 100 = ''100''"
  by (simp add: num_to_string.simps digit_char_def)

lemma num_to_string_4: "num_to_string 4 = ''4''"
  by (simp add: num_to_string.simps digit_char_def)

lemma num_to_string_9999: "num_to_string 9999 = ''9999''"
  by (simp add: num_to_string.simps digit_char_def)

text \<open>
  C6: for every open-port list, \<open>analyze\<close> returns a risk score equal to the sum, over the
  input ports present in the vulnerability table, of the severity weight (Critical 40,
  High 25, Medium 15, Low 5, any other severity 5), capped at 100, hence between 0 and
  100; it returns one vulnerability record per table-present port, in input order, and
  none for an absent port; and its summary ends in the text chosen by the thresholds
  score > 70, score > 40, score > 0, score = 0.
\<close>

theorem analyze_risk_report:
  "riskScore (analyze ports) = min 100 (sum_list (map table_weight (filter in_table ports)))
   \<and> 0 \<le> riskScore (analyze ports) \<and> riskScore (analyze ports) \<le> 100
   \<and> vulnerabilities (analyze ports) = map table_record (filter in_table ports)
   \<and> summary (analyze ports) =
       ''Scan complete. Risk score: '' @ num_to_string (riskScore (analyze ports))
       @ ''/100. '' @ num_to_string (length ports) @ '' open port(s) detected. ''
       @ (if riskScore (analyze ports) > 70 then ''CRITICAL: Immediate remediation required.''
          else if riskScore (analyze ports) > 40 then ''WARNING: Moderate security risks found.''
          else if riskScore (analyze ports) > 0 then
            ''Low risk '' @ [CHR 0xE2, CHR 0x80, CHR 0x94] @ '' continue monitoring.''
          else ''No known vulnerabilities detected.'')"
proof -
  have score: "riskScore (analyze ports) =
      min 100 (sum_list (map table_weight (filter in_table ports)))"
    by (rule analyze_score)
  have bound: "riskScore (analyze ports) \<le> 100"
    unfolding score by simp
  have vulns: "vulnerabilities (analyze ports) = map table_record (filter in_table ports)"
    by (rule analyze_vulnerabilities)
  have summ: "summary (analyze ports) =
       ''Scan complete. Risk score: '' @ num_to_string (riskScore (analyze ports))
       @ ''/100. '' @ num_to_string (length ports) @ '' open port(s) detected. ''
       @ (if riskScore (analyze ports) > 70 then ''CRITICAL: Immediate remediation required.''
          else if riskScore (analyze ports) > 40 then ''WARNING: Moderate security risks found.''
          else if riskScore (analyze ports) > 0 then
            ''Low risk '' @ [CHR 0xE2, CHR 0x80, CHR 0x94] @ '' continue monitoring.''
          else ''No known vulnerabilities detected.'')"
    by (subst analyze_summary) (simp only: summary_tone_def)
  from score bound vulns summ show ?thesis by blast
qed

theorem analyze_risk_report_witness:
  "riskScore (analyze [\<lparr>open_port.port = 6379, banner = None\<rparr>,
                       \<lparr>open_port.port = 9999, banner = Some ''x''\<rparr>,
                       \<lparr>open_port.port = 27017, banner = None\<rparr>,
                       \<lparr>open_port.port = 23, banner = None\<rparr>]) = 100
   \<and> map Vulnerability.port
         (vulnerabilities (analyze [\<lparr>open_port.port = 6379, banner = None\<rparr>,
                       \<lparr>open_port.port = 9999, banner = Some ''x''\<rparr>,
                       \<lparr>open_port.port = 27017, banner = None\<rparr>,
                       \<lparr>open_port.port = 23, banner = None\<rparr>])) = [6379, 27017, 23]
   \<and> summary (analyze [\<lparr>open_port.port = 6379, banner = None\<rparr>,
                       \<lparr>open_port.port = 9999, banner = Some ''x''\<rparr>,
                       \<lparr>open_port.port = 27017, banner = None\<rparr>,
                       \<lparr>open_port.port = 23, banner = None\<rparr>]) =
       ''Scan complete. Risk score: 100/100. 4 open port(s) detected. CRITICAL: Immediate remediation required.''"
proof -
  let ?X = "[\<lparr>open_port.port = 6379, banner = None\<rparr>,
             \<lparr>open_port.port = 9999, banner = Some ''x''\<rparr>,
             \<lparr>open_port.port = 27017, banner = None\<rparr>,
             \<lparr>open_port.port = 23, banner = None\<rparr>]"
  note r = analyze_risk_report [of ?X]
  have flt: "filter in_table ?X =
      [\<lparr>open_port.port = 6379, banner = None\<rparr>,
       \<lparr>open_port.port = 27017, banner = None\<rparr>,
       \<lparr>open_port.port = 23, banner = None\<rparr>]"
    by (simp add: in_table_def VULN_DB_9999 VULN_DB_6379 VULN_DB_27017 VULN_DB_23)
  have len: "length ?X = 4"
    by simp
  have score: "riskScore (analyze ?X) = 100"
    by (simp only: r [THEN conjunct1] flt)
       (simp add: table_weight_def severity_weight_def mk_entry_def
          VULN_DB_6379 VULN_DB_27017 VULN_DB_23)
  have vulns: "map Vulnerability.port (vulnerabilities (analyze ?X)) = [6379, 27017, 23]"
    by (simp only: r [THEN conjunct2, THEN conjunct2, THEN conjunct2, THEN conjunct1] flt)
       (simp add: table_record_def vuln_entry.defs Vulnerability.defs)
  have summ: "summary (analyze ?X) =
      ''Scan complete. Risk score: 100/100. 4 open port(s) detected. CRITICAL: Immediate remediation required.''"
    by (simp only: r [THEN conjunct2, THEN conjunct2, THEN conjunct2, THEN conjunct2]
          score len)
       (simp add: num_to_string_100 num_to_string_4)
  from score vulns summ show ?thesis by blast
qed

text \<open>
  C7: for every port number and optional banner, \<open>analyzePort\<close> returns an insight, never
  \<open>null\<close>; for a port absent from the vulnerability table the insight is the synthetic
  Low-risk "Unknown Service" one.
\<close>

theorem analyzePort_never_null:
  "analyzePort p b \<noteq> None
   \<and> (VULN_DB p = None \<longrightarrow>
        analyzePort p b =
          Some \<lparr>PortInsight.port = p, riskLevel = ''Low'',
                title = ''Unknown Service (Port '' @ num_to_string p @ '')'',
                shortDesc = ''Open port with unrecognized service.''\<rparr>)"
  by (cases "VULN_DB p") (simp_all add: analyzePort_def)

theorem analyzePort_never_null_witness:
  "VULN_DB 9999 = None
   \<and> analyzePort 9999 (Some ''SSH-2.0'') \<noteq> None
   \<and> analyzePort 9999 (Some ''SSH-2.0'') =
          Some \<lparr>PortInsight.port = 9999, riskLevel = ''Low'',
                title = ''Unknown Service (Port 9999)'',
                shortDesc = ''Open port with unrecognized service.''\<rparr>"
  using analyzePort_never_null [of 9999 "Some ''SSH-2.0''"]
  by (simp add: VULN_DB_9999 num_to_string_9999)

text \<open>
  C9: two calls of \<open>analyze\<close> on the same open-port list, one after the other on the
  module's state, return the same report (the same risk score, the same sequence of
  vulnerabilities and the same summary text), which is the report \<open>analyze\<close> computes;
  the calls leave the module's tables as they were.
\<close>

theorem analyze_twice_identical:
  assumes "analyze_st module_init X = (r1, m1)"
    and "analyze_st m1 X = (r2, m2)"
  shows "r1 = r2 \<and> riskScore r1 = riskScore r2
         \<and> vulnerabilities r1 = vulnerabilities r2 \<and> summary r1 = summary r2
         \<and> r1 = analyze X \<and> m2 = module_init"
proof -
  from assms(1) have m1: "m1 = module_init" and r1: "r1 = analyze X"
    by (simp_all add: analyze_st_def analyze_def module_init_def)
  from assms(2) m1 have m2: "m2 = module_init" and r2: "r2 = analyze X"
    by (simp_all add: analyze_st_def analyze_def module_init_def)
  from r1 r2 m2 show ?thesis by simp
qed

theorem analyze_twice_identical_witness:
  "analyze_st module_init [\<lparr>open_port.port = 6379, banner = None\<rparr>]
     = (analyze [\<lparr>open_port.port = 6379, banner = None\<rparr>], module_init)
   \<and> analyze_st module_init [\<lparr>open_port.port = 6379, banner = None\<rparr>]
     = (analyze [\<lparr>open_port.port = 6379, banner = None\<rparr>], module_init)
   \<and> riskScore (analyze [\<lparr>open_port.port = 6379, banner = None\<rparr>])
     = riskScore (analyze [\<lparr>open_port.port = 6379, banner = None\<rparr>])"
proof -
  have h: "analyze_st module_init [\<lparr>open_port.port = 6379, banner = None\<rparr>]
     = (analyze [\<lparr>open_port.port = 6379, banner = None\<rparr>], module_init)"
    by (simp add: analyze_st_def analyze_def module_init_def)
  from analyze_twice_identical [OF h h] h show ?thesis by simp
qed

text \<open>
  C10: the analyzer reads port numbers only. Two open-port lists that agree on their
  port values, whatever their banners, get the same report from \<open>analyze\<close>, and
  \<open>analyzePort\<close> returns the same insight for a port whatever the banner.
\<close>

theorem analyzer_ignores_banners:
  assumes "map open_port.port X = map open_port.port Y"
  shows "analyze X = analyze Y \<and> analyzePort p b = analyzePort p b'"
proof -
  from assms have len: "length X = length Y"
    by (rule map_eq_imp_length_eq)
  have "analyze_loop VULN_DB SEVERITY_SCORES X ([], 0) =
        analyze_loop VULN_DB SEVERITY_SCORES Y ([], 0)"
    by (simp only: analyze_loop_closed assms)
  with len have "analyze X = analyze Y"
    by (simp add: analyze_def analyze_with_def)
  moreover have "analyzePort p b = analyzePort p b'"
    by (simp add: analyzePort_def)
  ultimately show ?thesis by simp
qed

theorem analyzer_ignores_banners_witness:
  "map open_port.port [\<lparr>open_port.port = 22, banner = None\<rparr>,
                        \<lparr>open_port.port = 9999, banner = Some ''a''\<rparr>]
     = map open_port.port [\<lparr>open_port.port = 22, banner = Some ''SSH-2.0-OpenSSH''\<rparr>,
                           \<lparr>open_port.port = 9999, banner = None\<rparr>]
   \<and> analyze [\<lparr>open_port.port = 22, banner = None\<rparr>,
               \<lparr>open_port.port = 9999, banner = Some ''a''\<rparr>]
     = analyze [\<lparr>open_port.port = 22, banner = Some ''SSH-2.0-OpenSSH''\<rparr>,
                \<lparr>open_port.port = 9999, banner = None\<rparr>]
   \<and> analyzePort 22 None = analyzePort 22 (Some ''SSH-2.0-OpenSSH'')"
proof -
  have h: "map open_port.port [\<lparr>open_port.port = 22, banner = None\<rparr>,
                        \<lparr>open_port.port = 9999, banner = Some ''a''\<rparr>]
     = map open_port.port [\<lparr>open_port.port = 22, banner = Some ''SSH-2.0-OpenSSH''\<rparr>,
                           \<lparr>open_port.port = 9999, banner = None\<rparr>]"
    by simp
  from analyzer_ignores_banners [OF h, of 22 None "Some ''SSH-2.0-OpenSSH''"] h
  show ?thesis by blast
qed

section \<open>Target sanitizing and validation (server/services/scanner.ts)\<close>

subsection \<open>String.prototype.trim\<close>

text \<open>
  The white space and line terminator characters of ECMAScript, in UTF-8: TAB, LF, VT,
  FF, CR, SP, U+00A0, U+1680, U+2000 to U+200A, U+2028, U+2029, U+202F, U+205F, U+3000
  and U+FEFF.
\<close>

definition WhiteSpace :: "string list" where
  "WhiteSpace =
     [[CHR 0x09], [CHR 0x0A], [CHR 0x0B], [CHR 0x0C], [CHR 0x0D], [CHR 0x20],
      [CHR 0xC2, CHR 0xA0], [CHR 0xE1, CHR 0x9A, CHR 0x80],
      [CHR 0xE2, CHR 0x80, CHR 0x80], [CHR 0xE2, CHR 0x80, CHR 0x81],
      [CHR 0xE2, CHR 0x80, CHR 0x82], [CHR 0xE2, CHR 0x80, CHR 0x83],
      [CHR 0xE2, CHR 0x80, CHR 0x84], [CHR 0xE2, CHR 0x80, CHR 0x85],
      [CHR 0xE2, CHR 0x80, CHR 0x86], [CHR 0xE2, CHR 0x80, CHR 0x87],
      [CHR 0xE2, CHR 0x80, CHR 0x88], [CHR 0xE2, CHR 0x80, CHR 0x89],
      [CHR 0xE2, CHR 0x80, CHR 0x8A], [CHR 0xE2, CHR 0x80, CHR 0xA8],
      [CHR 0xE2, CHR 0x80, CHR 0xA9], [CHR 0xE2, CHR 0x80, CHR 0xAF],
      [CHR 0xE2, CHR 0x81, CHR 0x9F], [CHR 0xE3, CHR 0x80, CHR 0x80],
      [CHR 0xEF, CHR 0xBB, CHR 0xBF]]"

text \<open>The rest of \<open>s\<close> after one leading character out of \<open>ws\<close>, if \<open>s\<close> starts with one.\<close>

fun drop_one :: "string list \<Rightarrow> string \<Rightarrow> string option" where
  "drop_one [] s = None"
| "drop_one (w # ws) s =
     (if w \<noteq> [] \<and> take (length w) s = w then Some (drop (length w) s)
      else drop_one ws s)"

lemma drop_one_shorter: "drop_one ws s = Some r \<Longrightarrow> length r < length s"
proof (induction ws)
  case Nil
  then show ?case by simp
next
  case (Cons w ws)
  show ?case
  proof (cases "w \<noteq> [] \<and> take (length w) s = w")
    case True
    then have "s \<noteq> []" by auto
    with True Cons.prems show ?thesis by auto
  next
    case False
    with Cons show ?thesis by auto
  qed
qed

function drop_leading :: "string list \<Rightarrow> string \<Rightarrow> string" where
  "drop_leading ws s = (case drop_one ws s of None \<Rightarrow> s | Some r \<Rightarrow> drop_leading ws r)"
  by pat_completeness auto
termination
  by (relation "measure (\<lambda>(ws, s). length s)") (auto dest: drop_one_shorter)

declare drop_leading.simps [simp del]

definition trim :: "string \<Rightarrow> string" where
  "trim s = rev (drop_leading (map rev WhiteSpace) (rev (drop_leading WhiteSpace s)))"

subsection \<open>Regular expressions\<close>

text \<open>
  A regular expression is a matcher: applied to a string, it returns the rest of the
  string after each prefix it matches. A pattern anchored by \<open>^\<close> and \<open>$\<close> passes
  \<open>test\<close> when one of the rests is empty.
\<close>

type_synonym matcher = "string \<Rightarrow> string list"

definition rx_char :: "(char \<Rightarrow> bool) \<Rightarrow> matcher" where
  "rx_char P s = (case s of [] \<Rightarrow> [] | c # r \<Rightarrow> if P c then [r] else [])"

definition rx_seq :: "matcher \<Rightarrow> matcher \<Rightarrow> matcher" where
  "rx_seq m1 m2 s = concat (map m2 (m1 s))"

definition rx_opt :: "matcher \<Rightarrow> matcher" where
  "rx_opt m s = m s @ [s]"

text \<open>\<open>m{0,n}\<close>\<close>

fun rx_upto :: "nat \<Rightarrow> matcher \<Rightarrow> matcher" where
  "rx_upto 0 m s = [s]"
| "rx_upto (Suc n) m s = concat (map (rx_upto n m) (m s)) @ [s]"

text \<open>
  \<open>m*\<close>: an iteration that consumes nothing is dropped, as ECMAScript does, so the
  length of the string bounds the number of iterations.
\<close>

fun rx_star_upto :: "nat \<Rightarrow> matcher \<Rightarrow> matcher" where
  "rx_star_upto 0 m s = [s]"
| "rx_star_upto (Suc n) m s =
     concat (map (rx_star_upto n m) (filter (\<lambda>r. length r < length s) (m s))) @ [s]"

definition rx_star :: "matcher \<Rightarrow> matcher" where
  "rx_star m s = rx_star_upto (length s) m s"

definition rx_test :: "matcher \<Rightarrow> string \<Rightarrow> bool" where
  "rx_test m s = ([] \<in> set (m s))"

definition is_digit :: "char \<Rightarrow> bool" where
  "is_digit c = (CHR ''0'' \<le> c \<and> c \<le> CHR ''9'')"

definition is_alnum :: "char \<Rightarrow> bool" where
  "is_alnum c =
     ((CHR ''a'' \<le> c \<and> c \<le> CHR ''z'') \<or> (CHR ''A'' \<le> c \<and> c \<le> CHR ''Z'')
      \<or> (CHR ''0'' \<le> c \<and> c \<le> CHR ''9''))"

definition is_alnum_hyphen :: "char \<Rightarrow> bool" where
  "is_alnum_hyphen c = (is_alnum c \<or> c = CHR ''-'')"

text \<open>\<open>\d{1,3}\<close>\<close>

definition rx_digits13 :: matcher where
  "rx_digits13 = rx_seq (rx_char is_digit) (rx_upto 2 (rx_char is_digit))"

definition rx_dot :: matcher where
  "rx_dot = rx_char (\<lambda>c. c = CHR ''.'')"

text \<open>\<open>/^\d{1,3}\.\d{1,3}\.\d{1,3}\.\d{1,3}$/\<close>\<close>

definition ipv4 :: matcher where
  "ipv4 =
     rx_seq rx_digits13 (rx_seq rx_dot (rx_seq rx_digits13 (rx_seq rx_dot
       (rx_seq rx_digits13 (rx_seq rx_dot rx_digits13)))))"

text \<open>\<open>[a-zA-Z0-9]([a-zA-Z0-9-]{0,61}[a-zA-Z0-9])?\<close>\<close>

definition rx_label :: matcher where
  "rx_label =
     rx_seq (rx_char is_alnum)
       (rx_opt (rx_seq (rx_upto 61 (rx_char is_alnum_hyphen)) (rx_char is_alnum)))"

text \<open>
  \<open>/^[a-zA-Z0-9]([a-zA-Z0-9-]{0,61}[a-zA-Z0-9])?(\.[a-zA-Z0-9]([a-zA-Z0-9-]{0,61}[a-zA-Z0-9])?)*$/\<close>
\<close>

definition hostname :: matcher where
  "hostname = rx_seq rx_label (rx_star (rx_seq rx_dot rx_label))"

subsection \<open>sanitizeTarget and validateTarget\<close>

definition ascii_lower :: "char \<Rightarrow> char" where
  "ascii_lower c =
     (if CHR ''A'' \<le> c \<and> c \<le> CHR ''Z'' then char_of (of_char c + (32::nat)) else c)"

text \<open>\<open>target.replace(/^https?:\/\//i, '')\<close>\<close>

definition strip_protocol :: "string \<Rightarrow> string" where
  "strip_protocol s =
     (if map ascii_lower (take 7 s) = ''http://'' then drop 7 s
      else if map ascii_lower (take 8 s) = ''https://'' then drop 8 s
      else s)"

text \<open>\<open>s.split(c)\<close> for a separator of one character: never an empty array.\<close>

fun split :: "char \<Rightarrow> string \<Rightarrow> string list" where
  "split c [] = [[]]"
| "split c (x # xs) =
     (if x = c then [] # split c xs
      else (case split c xs of [] \<Rightarrow> [[x]] | h # t \<Rightarrow> (x # h) # t))"

definition first_part :: "char \<Rightarrow> string \<Rightarrow> string" where
  "first_part c s = (case split c s of [] \<Rightarrow> [] | h # t \<Rightarrow> h)"

definition sanitizeTarget :: "string \<Rightarrow> string" where
  "sanitizeTarget input =
     (let target = trim input;
          target = strip_protocol target;
          target = first_part (CHR ''/'') target;
          target = first_part (CHR '':'') target
      in target)"

definition validateTarget :: "string \<Rightarrow> bool" where
  "validateTarget target =
     (if target = [] \<or> length target = 0 \<or> length target > 255 then False
      else if rx_test ipv4 target then True
      else rx_test hostname target)"

section \<open>The probe of one port (scanPort of the port queue)\<close>

datatype status = Open | Closed | Filtered

text \<open>
  A banner is a JavaScript string as it is stored: the sequence of its UTF-16 code
  units, so that \<open>banner.slice(0, 256)\<close> is \<open>take 256\<close>.
\<close>

type_synonym code_units = "nat list"

record PortResult =
  port :: nat
  status :: status
  duration :: int
  banner :: "code_units option"

text \<open>
  What the socket and the banner timer can deliver to the handlers \<open>scanPort\<close>
  registers: \<open>connect\<close>, \<open>data\<close> with the bytes of its chunk, \<open>timeout\<close>, \<open>error\<close>
  with its \<open>err.code\<close>, and the expiry of the 400 ms banner timer. Each comes with the
  value \<open>Date.now()\<close> has when its handler runs.
\<close>

datatype socket_event =
  Connect | Data string | SocketTimeout | SocketError string | BannerTimer

text \<open>
  The variables of one call of \<open>scanPort\<close>, and the two timers: \<open>idle_from\<close> is when
  the idle timer of the socket was last started (by \<open>setTimeout\<close>, then by the
  connection), \<open>banner_from\<close> when the banner timer was set.
\<close>

record probe =
  start :: int
  banner_text :: code_units
  resolved :: bool
  connected :: bool
  dur :: int
  idle_from :: int
  banner_from :: int
  written :: "string list"
  settled :: "PortResult option"

definition probe_init :: "int \<Rightarrow> probe" where
  "probe_init t0 =
     \<lparr>start = t0, banner_text = [], resolved = False, connected = False, dur = 0,
      idle_from = t0, banner_from = t0, written = [], settled = None\<rparr>"

text \<open>
  \<open>done(status, dur?)\<close>: the guard \<open>resolved\<close> lets the first call through only; that
  call removes the socket's listeners and resolves the promise.
\<close>

definition done_probe :: "nat \<Rightarrow> status \<Rightarrow> int option \<Rightarrow> int \<Rightarrow> probe \<Rightarrow> probe" where
  "done_probe p st d now pr =
     (if resolved pr then pr
      else pr\<lparr>resolved := True,
              settled := Some
                \<lparr>PortResult.port = p, status = st,
                 duration = (case d of Some v \<Rightarrow> v | None \<Rightarrow> now - start pr),
                 banner = (if take 256 (banner_text pr) = [] then None
                           else Some (take 256 (banner_text pr)))\<rparr>\<rparr>)"

definition probe_payload :: "string \<Rightarrow> nat \<Rightarrow> string list" where
  "probe_payload h p =
     (if p = 80 \<or> p = 8080 \<or> p = 8443 then
        [''HEAD / HTTP/1.0'' @ [CHR 0x0D, CHR 0x0A] @ ''Host: '' @ h
         @ [CHR 0x0D, CHR 0x0A, CHR 0x0D, CHR 0x0A]]
      else if p = 21 \<or> p = 25 \<or> p = 110 \<or> p = 143 then []
      else if p \<noteq> 443 then [[CHR 0x0D, CHR 0x0A]]
      else [])"

text \<open>
  One event. \<open>toString chunk 0 n\<close> is \<open>chunk.toString('utf8', 0, n)\<close>, the text Node
  decodes from the first \<open>n\<close> bytes of the chunk; the decoder belongs to Node, not to
  the repository, and is a parameter here. \<open>tmo\<close> is the \<open>timeout\<close> handed to
  \<open>socket.setTimeout\<close>; with 0 the socket has no idle timer.

  The \<open>data\<close> listener and the banner timer exist once the \<open>connect\<close> handler has run;
  no listener is left after \<open>done\<close> (here \<open>done_probe\<close>). A timer does not fire early:
  the banner timer expires 400 ms after it was set or later, the idle timer \<open>tmo\<close> ms
  after it was last started or later. An expiry before that cannot happen and changes
  nothing.
\<close>

definition on_event ::
  "(string \<Rightarrow> nat \<Rightarrow> nat \<Rightarrow> code_units) \<Rightarrow> string \<Rightarrow> nat \<Rightarrow> int \<Rightarrow>
   int \<times> socket_event \<Rightarrow> probe \<Rightarrow> probe" where
  "on_event toString h p tmo te pr =
     (let now = fst te in
      if resolved pr then pr
      else case snd te of
        Connect \<Rightarrow>
          if connected pr then pr
          else pr\<lparr>connected := True, dur := now - start pr, idle_from := now,
                  banner_from := now, written := written pr @ probe_payload h p\<rparr>
      | Data chunk \<Rightarrow>
          if connected pr then
            done_probe p Open (Some (dur pr)) now
              (pr\<lparr>banner_text :=
                    banner_text pr @ toString chunk 0 (min (length chunk) 256)\<rparr>)
          else pr
      | BannerTimer \<Rightarrow>
          if connected pr \<and> banner_from pr + 400 \<le> now
          then done_probe p Open (Some (dur pr)) now pr else pr
      | SocketTimeout \<Rightarrow>
          if 0 < tmo \<and> idle_from pr + tmo \<le> now
          then done_probe p Filtered None now pr else pr
      | SocketError code \<Rightarrow>
          if code = ''ECONNREFUSED'' \<or> code = ''ECONNRESET''
          then done_probe p Closed None now pr
          else done_probe p Filtered None now pr)"

text \<open>
  \<open>scanPort(host, port, timeout)\<close> started at \<open>t0\<close>, under the events the socket then
  delivers: the value the promise resolves with, \<open>None\<close> while it is pending.
\<close>

definition scanPort_events ::
  "(string \<Rightarrow> nat \<Rightarrow> nat \<Rightarrow> code_units) \<Rightarrow> string \<Rightarrow> nat \<Rightarrow> int \<Rightarrow> int \<Rightarrow>
   (int \<times> socket_event) list \<Rightarrow> probe" where
  "scanPort_events toString h p tmo t0 evs =
     foldl (\<lambda>pr te. on_event toString h p tmo te pr) (probe_init t0) evs"

definition scanPort ::
  "(string \<Rightarrow> nat \<Rightarrow> nat \<Rightarrow> code_units) \<Rightarrow> string \<Rightarrow> nat \<Rightarrow> int \<Rightarrow> int \<Rightarrow>
   (int \<times> socket_event) list \<Rightarrow> PortResult option" where
  "scanPort toString h p tmo t0 evs = settled (scanPort_events toString h p tmo t0 evs)"

text \<open>The decoder of the text that is ASCII throughout: each byte is its own code unit.\<close>

definition toString_ascii :: "string \<Rightarrow> nat \<Rightarrow> nat \<Rightarrow> code_units" where
  "toString_ascii chunk s e = map of_char (take (e - s) (drop s chunk))"

section \<open>The promise pool (runScan of the port queue)\<close>

text \<open>
  The callbacks act on the state \<open>'w\<close> of everything outside the pool. A callback
  maps that state to \<open>Inr\<close> of the new one when it returns and to \<open>Inl\<close> of the new one
  when it throws. \<open>signal\<close> reads \<open>signal.aborted\<close> off that state.
\<close>

record 'w ScanOptions =
  host :: string
  ports :: "nat list"
  concurrency :: int
  timeout :: int
  onResult :: "PortResult \<Rightarrow> 'w \<Rightarrow> 'w + 'w"
  onProgress :: "nat \<Rightarrow> nat \<Rightarrow> 'w \<Rightarrow> 'w + 'w"
  onComplete :: "PortResult list \<Rightarrow> 'w \<Rightarrow> 'w + 'w"
  signal :: "('w \<Rightarrow> bool) option"

datatype promise = Pending | Fulfilled | Rejected

text \<open>
  The variables of one call of \<open>runScan\<close>: its locals, the ports of the probes launched
  and not yet settled (\<open>in_flight\<close>), the state of the promise it returns, and the number
  of \<open>then\<close> callbacks that threw (each leaves a rejected promise nobody handles).
\<close>

record scan_state =
  results :: "PortResult list"
  scanned :: nat
  index :: nat
  scanStart :: int
  lastProgressTime :: int
  in_flight :: "nat list"
  outcome :: promise
  unhandled :: nat

definition signal_aborted :: "'w ScanOptions \<Rightarrow> 'w \<Rightarrow> bool" where
  "signal_aborted opts w = (case signal opts of None \<Rightarrow> False | Some f \<Rightarrow> f w)"

text \<open>\<open>onComplete(results); resolve();\<close>\<close>

definition complete ::
  "'w ScanOptions \<Rightarrow> 'w \<times> scan_state \<Rightarrow> ('w \<times> scan_state) + ('w \<times> scan_state)" where
  "complete opts c =
     (case onComplete opts (results (snd c)) (fst c) of
        Inl w \<Rightarrow> Inl (w, snd c)
      | Inr w \<Rightarrow>
          Inr (w, (snd c)\<lparr>outcome :=
                 (if outcome (snd c) = Pending then Fulfilled else outcome (snd c))\<rparr>))"

text \<open>The \<open>while\<close> loop of \<open>next\<close>: each turn calls \<open>scanPort\<close> on the next port.\<close>

function launch :: "'w ScanOptions \<Rightarrow> scan_state \<Rightarrow> scan_state" where
  "launch opts st =
     (if index st < length (ScanOptions.ports opts)
         \<and> int (scanned st) + (int (index st) - int (scanned st)) - int (length (results st))
             < ScanOptions.concurrency opts
      then
        (if index st \<ge> length (ScanOptions.ports opts) then st
         else launch opts
                (st\<lparr>index := index st + 1,
                    in_flight := in_flight st @ [ScanOptions.ports opts ! index st]\<rparr>))
      else st)"
  by pat_completeness auto
termination
  by (relation "measure (\<lambda>(opts, st). length (ScanOptions.ports opts) - index st)") auto

declare launch.simps [simp del]

definition next_probe ::
  "'w ScanOptions \<Rightarrow> 'w \<times> scan_state \<Rightarrow> ('w \<times> scan_state) + ('w \<times> scan_state)" where
  "next_probe opts c =
     (let w = fst c; st = snd c; total = length (ScanOptions.ports opts) in
      if signal_aborted opts w then
        (if int (scanned st) + (int total - int (index st)) \<ge> int total
            \<or> length (results st) = scanned st
         then complete opts c
         else Inr c)
      else Inr (w, launch opts st))"

text \<open>The callback given to \<open>then\<close> on a probe's promise, run at time \<open>now\<close>.\<close>

definition on_settled ::
  "'w ScanOptions \<Rightarrow> PortResult \<Rightarrow> int \<Rightarrow> 'w \<times> scan_state \<Rightarrow>
   ('w \<times> scan_state) + ('w \<times> scan_state)" where
  "on_settled opts result now c =
     (let w = fst c; st = snd c; total = length (ScanOptions.ports opts) in
      if signal_aborted opts w then
        (let st1 = st\<lparr>scanned := scanned st + 1\<rparr> in
         if scanned st1 \<ge> total then complete opts (w, st1) else Inr (w, st1))
      else
        (let st1 = st\<lparr>scanned := scanned st + 1, results := results st @ [result]\<rparr> in
         case onResult opts result w of
           Inl w1 \<Rightarrow> Inl (w1, st1)
         | Inr w1 \<Rightarrow>
             (case (if now - lastProgressTime st1 > 50 \<or> scanned st1 \<ge> total then
                      (case onProgress opts (scanned st1) total w1 of
                         Inl w2 \<Rightarrow> Inl (w2, st1\<lparr>lastProgressTime := now\<rparr>)
                       | Inr w2 \<Rightarrow> Inr (w2, st1\<lparr>lastProgressTime := now\<rparr>))
                    else Inr (w1, st1)) of
                Inl c2 \<Rightarrow> Inl c2
              | Inr c2 \<Rightarrow>
                  if scanned (snd c2) \<ge> total then complete opts c2
                  else next_probe opts c2)))"

text \<open>
  The probe of a port in flight settles with \<open>result\<close>, and its \<open>then\<close> callback runs.
  An exception out of the callback rejects the promise \<open>then\<close> returned, which has no
  handler; the promise of \<open>runScan\<close> is not touched.
\<close>

definition probe_settled ::
  "'w ScanOptions \<Rightarrow> PortResult \<Rightarrow> int \<Rightarrow> 'w \<times> scan_state \<Rightarrow> 'w \<times> scan_state" where
  "probe_settled opts result now c =
     (if PortResult.port result \<in> set (in_flight (snd c)) then
        (case on_settled opts result now
                (fst c, (snd c)\<lparr>in_flight :=
                                 remove1 (PortResult.port result) (in_flight (snd c))\<rparr>) of
           Inl c' \<Rightarrow> (fst c', (snd c')\<lparr>unhandled := unhandled (snd c') + 1\<rparr>)
         | Inr c' \<Rightarrow> c')
      else c)"

fun repeat_next ::
  "nat \<Rightarrow> 'w ScanOptions \<Rightarrow> 'w \<times> scan_state \<Rightarrow> ('w \<times> scan_state) + ('w \<times> scan_state)" where
  "repeat_next 0 opts c = Inr c"
| "repeat_next (Suc n) opts c =
     (case next_probe opts c of Inl c' \<Rightarrow> Inl c' | Inr c' \<Rightarrow> repeat_next n opts c')"

text \<open>
  The synchronous part of \<open>runScan(options)\<close>, called at time \<open>now\<close>: the executor of the
  promise it returns. An exception out of the executor rejects that promise unless it is
  resolved already.
\<close>

definition runScan :: "'w ScanOptions \<Rightarrow> int \<Rightarrow> 'w \<Rightarrow> 'w \<times> scan_state" where
  "runScan opts now w =
     (let st0 = \<lparr>results = [], scanned = 0, index = 0, scanStart = now,
                 lastProgressTime = now, in_flight = [], outcome = Pending, unhandled = 0\<rparr>;
          total = length (ScanOptions.ports opts);
          initialBatch = min (ScanOptions.concurrency opts) (int total)
      in case (case repeat_next (nat initialBatch) opts (w, st0) of
                 Inl c \<Rightarrow> Inl c
               | Inr c \<Rightarrow> if total = 0 then complete opts c else Inr c) of
           Inl c \<Rightarrow>
             (fst c, (snd c)\<lparr>outcome :=
                       (if outcome (snd c) = Pending then Rejected else outcome (snd c))\<rparr>)
         | Inr c \<Rightarrow> c)"

section \<open>The scanner service (server/services/scanner.ts)\<close>

record ScanConfig =
  scanId :: string
  target :: string
  ports :: "nat list"
  concurrency :: int
  timeout :: int

record 'w ScanCallbacks =
  onResult :: "PortResult \<Rightarrow> 'w \<Rightarrow> 'w + 'w"
  onProgress :: "nat \<Rightarrow> nat \<Rightarrow> 'w \<Rightarrow> 'w + 'w"
  onComplete :: "PortResult list \<Rightarrow> 'w \<Rightarrow> 'w + 'w"

datatype log_entry =
  LogScan string string nat int int | LogFatal string | LogAborted string

text \<open>
  The state outside the pool: the map \<open>activeScans\<close> from a scan id to its
  AbortController (a number, the count of controllers created before it), the set of the
  controllers whose signal is aborted, the console, and the state \<open>caller\<close> of whoever
  supplies the callbacks.
\<close>

record 'u world =
  activeScans :: "string \<rightharpoonup> nat"
  aborted_signals :: "nat set"
  controllers :: nat
  console :: "log_entry list"
  caller :: 'u

datatype error = InvalidTarget string

text \<open>\<open>activeScans.delete(id)\<close>, with the boolean it returns.\<close>

definition delete_scan :: "string \<Rightarrow> 'u world \<Rightarrow> bool \<times> 'u world" where
  "delete_scan sid w =
     (activeScans w sid \<noteq> None, w\<lparr>activeScans := (activeScans w)(sid := None)\<rparr>)"

text \<open>The \<open>onComplete\<close> that \<open>startScan\<close> hands to \<open>runScan\<close>.\<close>

definition scan_onComplete ::
  "string \<Rightarrow> 'u world ScanCallbacks \<Rightarrow> PortResult list \<Rightarrow> 'u world \<Rightarrow> 'u world + 'u world" where
  "scan_onComplete sid callbacks rs w =
     ScanCallbacks.onComplete callbacks rs (snd (delete_scan sid w))"

text \<open>The handler given to \<open>catch\<close> on the promise of \<open>runScan\<close>.\<close>

definition scan_fatal :: "string \<Rightarrow> 'u world ScanCallbacks \<Rightarrow> 'u world \<Rightarrow> 'u world + 'u world" where
  "scan_fatal sid callbacks w =
     ScanCallbacks.onComplete callbacks []
       (snd (delete_scan sid (w\<lparr>console := console w @ [LogFatal sid]\<rparr>)))"

definition scan_options ::
  "ScanConfig \<Rightarrow> 'u world ScanCallbacks \<Rightarrow> string \<Rightarrow> nat \<Rightarrow> 'u world ScanOptions" where
  "scan_options config callbacks tgt abort =
     \<lparr>host = tgt,
      ScanOptions.ports = ScanConfig.ports config,
      ScanOptions.concurrency = max 10 (min (ScanConfig.concurrency config) 500),
      ScanOptions.timeout =
        (if length (ScanConfig.ports config) > 500 then min (ScanConfig.timeout config) 400
         else min (ScanConfig.timeout config) 800),
      ScanOptions.onResult = ScanCallbacks.onResult callbacks,
      ScanOptions.onProgress = ScanCallbacks.onProgress callbacks,
      ScanOptions.onComplete = scan_onComplete (scanId config) callbacks,
      signal = Some (\<lambda>w. abort \<in> aborted_signals w)\<rparr>"

text \<open>
  \<open>startScan(config, callbacks)\<close> called at time \<open>now\<close>: what it returns or throws, the
  state it leaves, and the scan it has started, if any, as the options and the variables
  of the \<open>runScan\<close> call. The \<open>catch\<close> handler is run here when the promise is rejected.
\<close>

definition startScan ::
  "ScanConfig \<Rightarrow> 'u world ScanCallbacks \<Rightarrow> int \<Rightarrow> 'u world \<Rightarrow>
   (error + string) \<times> 'u world \<times> ('u world ScanOptions \<times> scan_state) option" where
  "startScan config callbacks now w =
     (let tgt = sanitizeTarget (target config) in
      if \<not> validateTarget tgt then (Inl (InvalidTarget (target config)), w, None)
      else
        let abort = controllers w;
            w1 = w\<lparr>controllers := controllers w + 1,
                   activeScans := (activeScans w)(scanId config \<mapsto> abort)\<rparr>;
            opts = scan_options config callbacks tgt abort;
            w2 = w1\<lparr>console := console w1 @
                   [LogScan (scanId config) tgt (length (ScanConfig.ports config))
                      (ScanOptions.concurrency opts) (ScanOptions.timeout opts)]\<rparr>;
            c = runScan opts now w2
        in if outcome (snd c) = Rejected then
             (case scan_fatal (scanId config) callbacks (fst c) of
                Inl w3 \<Rightarrow>
                  (Inr tgt, w3, Some (opts, (snd c)\<lparr>unhandled := unhandled (snd c) + 1\<rparr>))
              | Inr w3 \<Rightarrow> (Inr tgt, w3, Some (opts, snd c)))
           else (Inr tgt, fst c, Some (opts, snd c)))"

definition abortScan :: "string \<Rightarrow> 'u world \<Rightarrow> bool \<times> 'u world" where
  "abortScan sid w =
     (case activeScans w sid of
        Some abort \<Rightarrow>
          (True,
           (snd (delete_scan sid (w\<lparr>aborted_signals := insert abort (aborted_signals w)\<rparr>)))
             \<lparr>console := console w @ [LogAborted sid]\<rparr>)
      | None \<Rightarrow> (False, w))"

definition isActive :: "string \<Rightarrow> 'u world \<Rightarrow> bool" where
  "isActive sid w = (activeScans w sid \<noteq> None)"

subsection \<open>A caller that records the calls it gets\<close>

datatype callback_event =
  OnResult PortResult | OnProgress nat nat | OnComplete "PortResult list"

definition record_call ::
  "(callback_event \<Rightarrow> bool) \<Rightarrow> callback_event \<Rightarrow>
   callback_event list world \<Rightarrow> callback_event list world + callback_event list world" where
  "record_call throws ev w =
     (if throws ev then Inl (w\<lparr>caller := caller w @ [ev]\<rparr>)
      else Inr (w\<lparr>caller := caller w @ [ev]\<rparr>))"

definition recorder :: "(callback_event \<Rightarrow> bool) \<Rightarrow> callback_event list world ScanCallbacks" where
  "recorder throws =
     \<lparr>ScanCallbacks.onResult = (\<lambda>r. record_call throws (OnResult r)),
      ScanCallbacks.onProgress = (\<lambda>n t. record_call throws (OnProgress n t)),
      ScanCallbacks.onComplete = (\<lambda>rs. record_call throws (OnComplete rs))\<rparr>"

definition world_init :: "callback_event list world" where
  "world_init =
     \<lparr>activeScans = Map.empty, aborted_signals = {}, controllers = 0, console = [],
      caller = []\<rparr>"

section \<open>Properties of target validation\<close>

subsection \<open>What the specification says of an accepted target\<close>

text \<open>
  The language of a matcher: \<open>accepts m L\<close> when the rests \<open>m\<close> returns on a string are
  those left by the prefixes in \<open>L\<close>.
\<close>

definition accepts :: "matcher \<Rightarrow> string set \<Rightarrow> bool" where
  "accepts m L = (\<forall>s r. r \<in> set (m s) \<longleftrightarrow> (\<exists>w\<in>L. s = w @ r))"

definition digit_group :: "string \<Rightarrow> bool" where
  "digit_group g = (1 \<le> length g \<and> length g \<le> 3 \<and> list_all is_digit g)"

definition four_digit_groups :: "string \<Rightarrow> bool" where
  "four_digit_groups s =
     (case split (CHR ''.'') s of
        [a, b, c, d] \<Rightarrow> digit_group a \<and> digit_group b \<and> digit_group c \<and> digit_group d
      | _ \<Rightarrow> False)"

definition dns_label :: "string \<Rightarrow> bool" where
  "dns_label l =
     (1 \<le> length l \<and> length l \<le> 63 \<and> list_all is_alnum_hyphen l
      \<and> hd l \<noteq> CHR ''-'' \<and> last l \<noteq> CHR ''-'')"

definition dns_hostname :: "string \<Rightarrow> bool" where
  "dns_hostname s = list_all dns_label (split (CHR ''.'') s)"

fun join :: "char \<Rightarrow> string list \<Rightarrow> string" where
  "join c [] = []"
| "join c [h] = h"
| "join c (h # t) = h @ c # join c t"

subsection \<open>The language of each pattern\<close>

lemma accepts_test: "accepts m L \<Longrightarrow> rx_test m s \<longleftrightarrow> s \<in> L"
  by (simp add: accepts_def rx_test_def)

lemma accepts_char: "accepts (rx_char P) {w. \<exists>c. w = [c] \<and> P c}"
  by (auto simp: accepts_def rx_char_def split: list.splits if_splits)

lemma accepts_seq:
  assumes "accepts m1 L1" and "accepts m2 L2"
  shows "accepts (rx_seq m1 m2) {w. \<exists>u\<in>L1. \<exists>v\<in>L2. w = u @ v}"
  unfolding accepts_def
proof (intro allI iffI)
  fix s r
  assume "r \<in> set (rx_seq m1 m2 s)"
  then obtain t where t: "t \<in> set (m1 s)" and r: "r \<in> set (m2 t)"
    by (auto simp: rx_seq_def)
  from t assms(1) obtain u where u: "u \<in> L1" "s = u @ t"
    by (auto simp: accepts_def)
  from r assms(2) obtain v where v: "v \<in> L2" "t = v @ r"
    by (auto simp: accepts_def)
  from u v show "\<exists>w\<in>{w. \<exists>u\<in>L1. \<exists>v\<in>L2. w = u @ v}. s = w @ r"
    by auto
next
  fix s r
  assume "\<exists>w\<in>{w. \<exists>u\<in>L1. \<exists>v\<in>L2. w = u @ v}. s = w @ r"
  then obtain u v where uv: "u \<in> L1" "v \<in> L2" "s = u @ v @ r"
    by auto
  from uv(1,3) assms(1) have "v @ r \<in> set (m1 s)"
    by (auto simp: accepts_def)
  moreover from uv(2) assms(2) have "r \<in> set (m2 (v @ r))"
    by (auto simp: accepts_def)
  ultimately show "r \<in> set (rx_seq m1 m2 s)"
    by (auto simp: rx_seq_def)
qed

lemma accepts_opt: "accepts m L \<Longrightarrow> accepts (rx_opt m) (insert [] L)"
  by (auto simp: accepts_def rx_opt_def)

lemma accepts_upto:
  assumes "accepts m L"
  shows "accepts (rx_upto n m) {w. \<exists>ws. w = concat ws \<and> length ws \<le> n \<and> set ws \<subseteq> L}"
proof (induction n)
  case 0
  show ?case by (auto simp: accepts_def)
next
  case (Suc n)
  show ?case
    unfolding accepts_def
  proof (intro allI iffI)
    fix s r
    assume "r \<in> set (rx_upto (Suc n) m s)"
    then consider "r = s" | t where "t \<in> set (m s)" "r \<in> set (rx_upto n m t)"
      by auto
    then show "\<exists>w\<in>{w. \<exists>ws. w = concat ws \<and> length ws \<le> Suc n \<and> set ws \<subseteq> L}. s = w @ r"
    proof cases
      case 1
      then have "s = concat [] @ r" by simp
      then show ?thesis by (intro bexI[of _ "[]"]) (auto intro: exI[of _ "[]"])
    next
      case 2
      from 2(1) assms obtain u where u: "u \<in> L" "s = u @ t"
        by (auto simp: accepts_def)
      from 2(2) Suc obtain ws where ws: "t = concat ws @ r" "length ws \<le> n" "set ws \<subseteq> L"
        by (auto simp: accepts_def)
      from u ws have "s = concat (u # ws) @ r" "length (u # ws) \<le> Suc n" "set (u # ws) \<subseteq> L"
        by auto
      then show ?thesis by blast
    qed
  next
    fix s r
    assume "\<exists>w\<in>{w. \<exists>ws. w = concat ws \<and> length ws \<le> Suc n \<and> set ws \<subseteq> L}. s = w @ r"
    then obtain ws where ws: "s = concat ws @ r" "length ws \<le> Suc n" "set ws \<subseteq> L"
      by auto
    show "r \<in> set (rx_upto (Suc n) m s)"
    proof (cases ws)
      case Nil
      with ws show ?thesis by simp
    next
      case (Cons u us)
      with ws have u: "u \<in> L" and s: "s = u @ (concat us @ r)"
        and us: "length us \<le> n" "set us \<subseteq> L"
        by auto
      from u s assms have "concat us @ r \<in> set (m s)"
        by (auto simp: accepts_def)
      moreover from us Suc have "r \<in> set (rx_upto n m (concat us @ r))"
        by (auto simp: accepts_def)
      ultimately show ?thesis by auto
    qed
  qed
qed

lemma star_upto_sound:
  assumes "accepts m L"
  shows "r \<in> set (rx_star_upto n m s) \<Longrightarrow> \<exists>ws. s = concat ws @ r \<and> set ws \<subseteq> L"
proof (induction n arbitrary: s)
  case 0
  then have "s = concat [] @ r" by simp
  then show ?case by (intro exI[of _ "[]"]) simp
next
  case (Suc n)
  then consider "r = s" | t where "t \<in> set (m s)" "r \<in> set (rx_star_upto n m t)"
    by auto
  then show ?case
  proof cases
    case 1
    then show ?thesis by (intro exI[of _ "[]"]) simp
  next
    case 2
    from 2(1) assms obtain u where u: "u \<in> L" "s = u @ t"
      by (auto simp: accepts_def)
    from Suc.IH[OF 2(2)] obtain ws where ws: "t = concat ws @ r" "set ws \<subseteq> L"
      by auto
    from u ws have "s = concat (u # ws) @ r \<and> set (u # ws) \<subseteq> L"
      by auto
    then show ?thesis by blast
  qed
qed

lemma star_upto_complete:
  assumes "accepts m L"
  shows "set ws \<subseteq> L \<Longrightarrow> [] \<notin> set ws \<Longrightarrow> length ws \<le> n \<Longrightarrow>
         r \<in> set (rx_star_upto n m (concat ws @ r))"
proof (induction n arbitrary: ws)
  case 0
  then show ?case by simp
next
  case (Suc n)
  show ?case
  proof (cases ws)
    case Nil
    then show ?thesis by simp
  next
    case (Cons u us)
    with Suc.prems have u: "u \<in> L" "u \<noteq> []" and us: "set us \<subseteq> L" "[] \<notin> set us" "length us \<le> n"
      by auto
    from u(1) assms have "concat us @ r \<in> set (m (u @ concat us @ r))"
      by (auto simp: accepts_def)
    moreover from u(2) have "length (concat us @ r) < length (u @ concat us @ r)"
      by simp
    moreover from Suc.IH[OF us] have "r \<in> set (rx_star_upto n m (concat us @ r))" .
    ultimately show ?thesis using Cons by auto
  qed
qed

lemma length_le_concat: "[] \<notin> set ws \<Longrightarrow> length ws \<le> length (concat ws)"
proof (induction ws)
  case Nil
  show ?case by simp
next
  case (Cons w ws)
  then have "w \<noteq> []" by auto
  then have "1 \<le> length w" by (cases w) auto
  with Cons show ?case by auto
qed

lemma accepts_star:
  assumes "accepts m L"
  shows "accepts (rx_star m) {w. \<exists>ws. w = concat ws \<and> set ws \<subseteq> L}"
  unfolding accepts_def
proof (intro allI iffI)
  fix s r
  assume "r \<in> set (rx_star m s)"
  then have "\<exists>ws. s = concat ws @ r \<and> set ws \<subseteq> L"
    unfolding rx_star_def by (rule star_upto_sound[OF assms])
  then show "\<exists>w\<in>{w. \<exists>ws. w = concat ws \<and> set ws \<subseteq> L}. s = w @ r"
    by auto
next
  fix s r
  assume "\<exists>w\<in>{w. \<exists>ws. w = concat ws \<and> set ws \<subseteq> L}. s = w @ r"
  then obtain ws where ws: "s = concat ws @ r" "set ws \<subseteq> L"
    by auto
  define vs where "vs = filter (\<lambda>w. w \<noteq> []) ws"
  have c: "concat vs = concat ws"
    unfolding vs_def by (induction ws) auto
  have vs: "set vs \<subseteq> L" "[] \<notin> set vs"
    using ws(2) by (auto simp: vs_def)
  have "length vs \<le> length (concat vs)"
    by (rule length_le_concat[OF vs(2)])
  then have "length vs \<le> length s"
    using ws(1) c by simp
  from star_upto_complete[OF assms vs this, of r] show "r \<in> set (rx_star m s)"
    by (simp add: rx_star_def c ws(1))
qed

lemma concat_singletons:
  "set ws \<subseteq> {w. \<exists>c. w = [c] \<and> P c} \<Longrightarrow> length (concat ws) = length ws \<and> list_all P (concat ws)"
  by (induction ws) auto

lemma chars_language:
  "{w. \<exists>ws. w = concat ws \<and> length ws \<le> n \<and> set ws \<subseteq> {w. \<exists>c. w = [c] \<and> P c}}
     = {w. length w \<le> n \<and> list_all P w}" (is "?A = ?B")
proof (intro set_eqI iffI)
  fix w assume "w \<in> ?A"
  then obtain ws where ws: "w = concat ws" "length ws \<le> n" "set ws \<subseteq> {w. \<exists>c. w = [c] \<and> P c}"
    by auto
  from concat_singletons[OF ws(3)] ws(1,2) show "w \<in> ?B" by simp
next
  fix w assume "w \<in> ?B"
  then have w: "length w \<le> n" "list_all P w" by auto
  let ?ws = "map (\<lambda>c. [c]) w"
  have "w = concat ?ws" by (induction w) auto
  moreover have "length ?ws \<le> n" using w(1) by simp
  moreover have "set ?ws \<subseteq> {w. \<exists>c. w = [c] \<and> P c}"
    using w(2) by (auto simp: list_all_iff)
  ultimately show "w \<in> ?A" by blast
qed

lemma accepts_chars_upto:
  "accepts (rx_upto n (rx_char P)) {w. length w \<le> n \<and> list_all P w}"
  using accepts_upto[OF accepts_char, of n P] by (simp only: chars_language)

lemma accepts_digits13: "accepts rx_digits13 {g. digit_group g}"
proof -
  have "accepts rx_digits13
      {w. \<exists>u\<in>{w. \<exists>c. w = [c] \<and> is_digit c}. \<exists>v\<in>{w. length w \<le> 2 \<and> list_all is_digit w}. w = u @ v}"
    unfolding rx_digits13_def by (rule accepts_seq[OF accepts_char accepts_chars_upto])
  moreover have "{w. \<exists>u\<in>{w. \<exists>c. w = [c] \<and> is_digit c}. \<exists>v\<in>{w. length w \<le> 2 \<and> list_all is_digit w}. w = u @ v}
      = {g. digit_group g}" (is "?A = ?B")
  proof (intro set_eqI iffI)
    fix w assume "w \<in> ?A" then show "w \<in> ?B" by (auto simp: digit_group_def)
  next
    fix w assume "w \<in> ?B"
    then obtain c v where "w = c # v" "is_digit c" "length v \<le> 2" "list_all is_digit v"
      by (cases w) (auto simp: digit_group_def)
    then show "w \<in> ?A" by auto
  qed
  ultimately show ?thesis by simp
qed

lemma accepts_dot: "accepts rx_dot {''.''}"
proof -
  have "{w. \<exists>c. w = [c] \<and> c = CHR ''.''} = {''.''}" by auto
  with accepts_char[of "\<lambda>c. c = CHR ''.''"] show ?thesis by (simp add: rx_dot_def)
qed

lemma accepts_dot_then:
  assumes "accepts m L"
  shows "accepts (rx_seq rx_dot m) {w. \<exists>v\<in>L. w = CHR ''.'' # v}"
proof -
  have "{w. \<exists>u\<in>{''.''}. \<exists>v\<in>L. w = u @ v} = {w. \<exists>v\<in>L. w = CHR ''.'' # v}" by auto
  with accepts_seq[OF accepts_dot assms] show ?thesis by simp
qed

lemma split_nonempty: "split c s \<noteq> []"
  by (induction s) (auto split: list.splits)

lemma split_free: "c \<notin> set a \<Longrightarrow> split c a = [a]"
  by (induction a) auto

lemma split_append_sep: "c \<notin> set a \<Longrightarrow> split c (a @ c # r) = a # split c r"
  by (induction a) (auto simp: split_nonempty split: list.splits)

lemma split_parts_free: "p \<in> set (split c s) \<Longrightarrow> c \<notin> set p"
proof (induction s arbitrary: p)
  case Nil
  then show ?case by simp
next
  case (Cons x xs)
  show ?case
  proof (cases "x = c")
    case True
    with Cons show ?thesis by auto
  next
    case False
    obtain h t where ht: "split c xs = h # t"
      using split_nonempty[of c xs] by (cases "split c xs") auto
    with False Cons.prems have "p = x # h \<or> p \<in> set t" by auto
    with Cons.IH ht False show ?thesis by auto
  qed
qed

lemma join_split: "join c (split c s) = s"
proof (induction s)
  case Nil
  show ?case by simp
next
  case (Cons x xs)
  obtain h t where ht: "split c xs = h # t"
    using split_nonempty[of c xs] by (cases "split c xs") auto
  show ?case
  proof (cases "x = c")
    case True
    with Cons ht show ?thesis by simp
  next
    case False
    with Cons ht show ?thesis by (cases t) auto
  qed
qed

lemma split_join:
  "ps \<noteq> [] \<Longrightarrow> \<forall>p\<in>set ps. c \<notin> set p \<Longrightarrow> split c (join c ps) = ps"
proof (induction c ps rule: join.induct)
  case (1 c)
  then show ?case by simp
next
  case (2 c h)
  then show ?case by (simp add: split_free)
next
  case (3 c h v va)
  then show ?case by (simp add: split_append_sep)
qed

lemma first_part_takeWhile: "first_part c s = takeWhile (\<lambda>x. x \<noteq> c) s"
proof (induction s)
  case Nil
  show ?case by (simp add: first_part_def)
next
  case (Cons x xs)
  obtain h t where ht: "split c xs = h # t"
    using split_nonempty[of c xs] by (cases "split c xs") auto
  with Cons show ?case by (auto simp: first_part_def)
qed

lemma is_digit_not_dot: "is_digit c \<Longrightarrow> c \<noteq> CHR ''.''"
  by (auto simp: is_digit_def)

lemma is_alnum_not_hyphen: "is_alnum c \<Longrightarrow> c \<noteq> CHR ''-''"
  by (auto simp: is_alnum_def)

lemma is_alnum_hyphen_not_dot: "is_alnum_hyphen c \<Longrightarrow> c \<noteq> CHR ''.''"
  by (auto simp: is_alnum_hyphen_def is_alnum_def)

lemma digit_group_dot_free: "digit_group g \<Longrightarrow> CHR ''.'' \<notin> set g"
  by (auto simp: digit_group_def list_all_iff dest: is_digit_not_dot)

lemma dns_label_dot_free: "dns_label l \<Longrightarrow> CHR ''.'' \<notin> set l"
  by (auto simp: dns_label_def list_all_iff dest: is_alnum_hyphen_not_dot)

lemma accepts_group_dot:
  assumes "accepts m L"
  shows "accepts (rx_seq rx_digits13 (rx_seq rx_dot m))
           {w. \<exists>a v. digit_group a \<and> v \<in> L \<and> w = a @ CHR ''.'' # v}"
proof -
  have "{w. \<exists>u\<in>{g. digit_group g}. \<exists>v\<in>{w. \<exists>v\<in>L. w = CHR ''.'' # v}. w = u @ v}
        = {w. \<exists>a v. digit_group a \<and> v \<in> L \<and> w = a @ CHR ''.'' # v}"
    by blast
  with accepts_seq[OF accepts_digits13 accepts_dot_then[OF assms]] show ?thesis
    by simp
qed

lemma accepts_ipv4:
  "accepts ipv4 {w. \<exists>a b c d. digit_group a \<and> digit_group b \<and> digit_group c \<and> digit_group d
                     \<and> w = join (CHR ''.'') [a, b, c, d]}"
proof -
  let ?L2 = "{w. \<exists>c d. digit_group c \<and> digit_group d \<and> w = c @ CHR ''.'' # d}"
  let ?L3 = "{w. \<exists>b c d. digit_group b \<and> digit_group c \<and> digit_group d
                \<and> w = b @ CHR ''.'' # c @ CHR ''.'' # d}"
  let ?L4 = "{w. \<exists>a b c d. digit_group a \<and> digit_group b \<and> digit_group c \<and> digit_group d
                \<and> w = a @ CHR ''.'' # b @ CHR ''.'' # c @ CHR ''.'' # d}"
  have e2: "{w. \<exists>a v. digit_group a \<and> v \<in> {g. digit_group g} \<and> w = a @ CHR ''.'' # v} = ?L2"
    by blast
  have e3: "{w. \<exists>a v. digit_group a \<and> v \<in> ?L2 \<and> w = a @ CHR ''.'' # v} = ?L3"
    by blast
  have e4: "{w. \<exists>a v. digit_group a \<and> v \<in> ?L3 \<and> w = a @ CHR ''.'' # v} = ?L4"
    by blast
  have a2: "accepts (rx_seq rx_digits13 (rx_seq rx_dot rx_digits13)) ?L2"
    using accepts_group_dot[OF accepts_digits13] by (simp only: e2)
  have a3: "accepts (rx_seq rx_digits13 (rx_seq rx_dot
              (rx_seq rx_digits13 (rx_seq rx_dot rx_digits13)))) ?L3"
    using accepts_group_dot[OF a2] by (simp only: e3)
  have a4: "accepts ipv4 ?L4"
    unfolding ipv4_def using accepts_group_dot[OF a3] by (simp only: e4)
  then show ?thesis by simp
qed

lemma ipv4_four_digit_groups: "rx_test ipv4 s \<longleftrightarrow> four_digit_groups s"
proof
  assume "rx_test ipv4 s"
  then obtain a b c d where g: "digit_group a" "digit_group b" "digit_group c" "digit_group d"
    and s: "s = join (CHR ''.'') [a, b, c, d]"
    by (auto simp: accepts_test[OF accepts_ipv4])
  from g have "\<forall>p\<in>set [a, b, c, d]. CHR ''.'' \<notin> set p"
    by (simp add: digit_group_dot_free)
  then have "split (CHR ''.'') (join (CHR ''.'') [a, b, c, d]) = [a, b, c, d]"
    by (intro split_join) simp_all
  with s g show "four_digit_groups s"
    by (simp add: four_digit_groups_def)
next
  assume "four_digit_groups s"
  then obtain a b c d where sp: "split (CHR ''.'') s = [a, b, c, d]"
    and g: "digit_group a" "digit_group b" "digit_group c" "digit_group d"
    by (auto simp: four_digit_groups_def split: list.splits)
  from join_split[of "CHR ''.''" s] sp have "s = join (CHR ''.'') [a, b, c, d]"
    by simp
  with g show "rx_test ipv4 s"
    by (auto simp: accepts_test[OF accepts_ipv4])
qed

lemma accepts_label: "accepts rx_label {l. dns_label l}"
proof -
  let ?A = "{w. \<exists>c. w = [c] \<and> is_alnum c}"
  let ?M = "{w. length w \<le> 61 \<and> list_all is_alnum_hyphen w}"
  let ?T = "{w. \<exists>u\<in>?M. \<exists>v\<in>?A. w = u @ v}"
  let ?L = "{w. \<exists>u\<in>?A. \<exists>v\<in>insert [] ?T. w = u @ v}"
  have acc: "accepts rx_label ?L"
    unfolding rx_label_def
    by (rule accepts_seq[OF accepts_char accepts_opt[OF accepts_seq[OF accepts_chars_upto accepts_char]]])
  have "?L = {l. dns_label l}"
  proof (intro set_eqI iffI)
    fix w assume "w \<in> ?L"
    then obtain u v where u: "u \<in> ?A" and v: "v \<in> insert [] ?T" and uv: "w = u @ v"
      by blast
    from u obtain a where a: "is_alnum a" and ua: "u = [a]"
      by blast
    from uv ua have w: "w = a # v" by simp
    from v consider "v = []" | m z where "v = m @ [z]" "length m \<le> 61"
        "list_all is_alnum_hyphen m" "is_alnum z"
      by auto
    then have "dns_label w"
    proof cases
      case 1
      with a w show ?thesis
        by (auto simp: dns_label_def is_alnum_hyphen_def dest: is_alnum_not_hyphen)
    next
      case 2
      with a w show ?thesis
        by (auto simp: dns_label_def is_alnum_hyphen_def dest: is_alnum_not_hyphen)
    qed
    then show "w \<in> {l. dns_label l}" by simp
  next
    fix w assume "w \<in> {l. dns_label l}"
    then have d: "dns_label w" by simp
    then obtain a v where w: "w = a # v"
      by (cases w) (auto simp: dns_label_def)
    from d w have a: "is_alnum a"
      by (auto simp: dns_label_def is_alnum_hyphen_def)
    from a have inA: "[a] \<in> ?A" by simp
    from w have wv: "w = [a] @ v" by simp
    have "v \<in> insert [] ?T"
    proof (cases v rule: rev_cases)
      case Nil
      then show ?thesis by simp
    next
      case (snoc m z)
      with d w have "[z] \<in> ?A" "m \<in> ?M"
        by (auto simp: dns_label_def is_alnum_hyphen_def)
      with snoc have "v \<in> ?T" by blast
      then show ?thesis by simp
    qed
    with inA wv show "w \<in> ?L" by blast
  qed
  with acc show ?thesis by simp
qed

lemma dotted_labels_join:
  "set ws \<subseteq> {w. \<exists>v\<in>{l. dns_label l}. w = CHR ''.'' # v} \<Longrightarrow>
     l0 @ concat ws = join (CHR ''.'') (l0 # map tl ws) \<and> list_all dns_label (map tl ws)"
proof (induction ws arbitrary: l0)
  case Nil
  show ?case by simp
next
  case (Cons w ws)
  then obtain l where l: "w = CHR ''.'' # l" "dns_label l" by auto
  from Cons have "l @ concat ws = join (CHR ''.'') (l # map tl ws) \<and> list_all dns_label (map tl ws)"
    by auto
  with l show ?case by simp
qed

lemma join_dotted: "join (CHR ''.'') (h # t) = h @ concat (map ((#) (CHR ''.'')) t)"
  by (induction t arbitrary: h) auto

lemma hostname_dns_hostname: "rx_test hostname s \<longleftrightarrow> dns_hostname s"
proof -
  let ?D = "{w. \<exists>v\<in>{l. dns_label l}. w = CHR ''.'' # v}"
  let ?S = "{w. \<exists>ws. w = concat ws \<and> set ws \<subseteq> ?D}"
  let ?L = "{w. \<exists>u\<in>{l. dns_label l}. \<exists>v\<in>?S. w = u @ v}"
  have acc: "accepts hostname ?L"
    unfolding hostname_def
    by (rule accepts_seq[OF accepts_label accepts_star[OF accepts_dot_then[OF accepts_label]]])
  show ?thesis
  proof
    assume "rx_test hostname s"
    then have "s \<in> ?L" by (simp only: accepts_test[OF acc])
    then obtain l0 ws where l0: "dns_label l0" and ws: "set ws \<subseteq> ?D" and s: "s = l0 @ concat ws"
      by auto
    from dotted_labels_join[OF ws, of l0] s
    have j: "s = join (CHR ''.'') (l0 # map tl ws)" and labs: "list_all dns_label (map tl ws)"
      by simp_all
    from l0 labs have "\<forall>p\<in>set (l0 # map tl ws). CHR ''.'' \<notin> set p"
      by (auto simp: list_all_iff dest: dns_label_dot_free)
    then have "split (CHR ''.'') (join (CHR ''.'') (l0 # map tl ws)) = l0 # map tl ws"
      by (intro split_join) simp_all
    with j l0 labs show "dns_hostname s"
      by (simp add: dns_hostname_def)
  next
    assume "dns_hostname s"
    then have labs: "list_all dns_label (split (CHR ''.'') s)"
      by (simp add: dns_hostname_def)
    obtain h t where ht: "split (CHR ''.'') s = h # t"
      using split_nonempty[of "CHR ''.''" s] by (cases "split (CHR ''.'') s") auto
    from join_split[of "CHR ''.''" s] ht have s: "s = h @ concat (map ((#) (CHR ''.'')) t)"
      by (simp add: join_dotted)
    from labs ht have h: "dns_label h" and t: "list_all dns_label t" by simp_all
    from t have "set (map ((#) (CHR ''.'')) t) \<subseteq> ?D"
      by (auto simp: list_all_iff)
    then have "concat (map ((#) (CHR ''.'')) t) \<in> ?S" by blast
    with h s have "s \<in> ?L" by blast
    then show "rx_test hostname s" by (simp only: accepts_test[OF acc])
  qed
qed

section \<open>Properties of the probe\<close>

lemma on_event_resolved: "resolved pr \<Longrightarrow> on_event ts h p tmo te pr = pr"
  by (simp add: on_event_def)

lemma events_after_resolved:
  "resolved pr \<Longrightarrow> foldl (\<lambda>pr te. on_event ts h p tmo te pr) pr evs = pr"
  by (induction evs) (simp_all add: on_event_resolved)

lemma scanPort_settled_first:
  assumes "resolved (on_event ts h p tmo te (probe_init t0))"
  shows "scanPort ts h p tmo t0 (te # post) = settled (on_event ts h p tmo te (probe_init t0))"
  using assms by (simp add: scanPort_def scanPort_events_def events_after_resolved)

lemma scanPort_settled_second:
  assumes "resolved (on_event ts h p tmo te2 (on_event ts h p tmo te1 (probe_init t0)))"
  shows "scanPort ts h p tmo t0 (te1 # te2 # post) =
           settled (on_event ts h p tmo te2 (on_event ts h p tmo te1 (probe_init t0)))"
  using assms by (simp add: scanPort_def scanPort_events_def events_after_resolved)

lemma connect_first:
  "on_event ts h p tmo (tc, Connect) (probe_init t0) =
     (probe_init t0)\<lparr>connected := True, dur := tc - t0, idle_from := tc, banner_from := tc,
                      written := probe_payload h p\<rparr>"
  by (simp add: on_event_def probe_init_def)

text \<open>A probe is resolved exactly when it has its result.\<close>

lemma on_event_keeps_settled:
  "(resolved pr \<longleftrightarrow> settled pr \<noteq> None) \<Longrightarrow>
     (resolved (on_event ts h p tmo te pr) \<longleftrightarrow> settled (on_event ts h p tmo te pr) \<noteq> None)"
  by (cases "snd te") (auto simp: on_event_def Let_def done_probe_def)

lemma events_keep_settled:
  "(resolved pr \<longleftrightarrow> settled pr \<noteq> None) \<Longrightarrow>
     (resolved (foldl (\<lambda>pr te. on_event ts h p tmo te pr) pr evs)
        \<longleftrightarrow> settled (foldl (\<lambda>pr te. on_event ts h p tmo te pr) pr evs) \<noteq> None)"
proof (induction evs arbitrary: pr)
  case Nil
  then show ?case by simp
next
  case (Cons te evs)
  from Cons.IH[OF on_event_keeps_settled[OF Cons.prems]] show ?case by simp
qed

lemma scanPort_events_settled:
  "resolved (scanPort_events ts h p tmo t0 evs)
     \<longleftrightarrow> settled (scanPort_events ts h p tmo t0 evs) \<noteq> None"
  unfolding scanPort_events_def
  by (rule events_keep_settled) (simp add: probe_init_def)

lemma scanPort_events_append:
  "scanPort_events ts h p tmo t0 (evs @ later) =
     foldl (\<lambda>pr te. on_event ts h p tmo te pr) (scanPort_events ts h p tmo t0 evs) later"
  by (simp add: scanPort_events_def)

lemma scanPort_stable:
  assumes "scanPort ts h p tmo t0 evs = Some r"
  shows "scanPort ts h p tmo t0 (evs @ later) = Some r"
proof -
  from assms have "settled (scanPort_events ts h p tmo t0 evs) \<noteq> None"
    by (simp add: scanPort_def)
  then have "resolved (scanPort_events ts h p tmo t0 evs)"
    by (simp add: scanPort_events_settled)
  then show ?thesis
    using assms by (simp add: scanPort_def scanPort_events_append events_after_resolved)
qed

lemma scanPort_resolved_settles:
  assumes "resolved (scanPort_events ts h p tmo t0 evs)"
  shows "\<exists>r. scanPort ts h p tmo t0 (evs @ later) = Some r"
proof -
  from assms have "settled (scanPort_events ts h p tmo t0 evs) \<noteq> None"
    by (simp add: scanPort_events_settled)
  then obtain r where "scanPort ts h p tmo t0 evs = Some r"
    by (auto simp: scanPort_def)
  then show ?thesis
    by (blast intro: scanPort_stable)
qed

lemma error_resolves: "resolved (on_event ts h p tmo (t, SocketError code) pr)"
  by (simp add: on_event_def done_probe_def)

lemma timeout_resolves:
  "0 < tmo \<Longrightarrow> idle_from pr + tmo \<le> t \<Longrightarrow> resolved (on_event ts h p tmo (t, SocketTimeout) pr)"
  by (simp add: on_event_def done_probe_def)

lemma on_event_idle_from:
  "idle_from (on_event ts h p tmo te pr) = idle_from pr
   \<or> idle_from (on_event ts h p tmo te pr) = fst te"
  by (cases "snd te") (auto simp: on_event_def Let_def done_probe_def)

lemma events_idle_from:
  "idle_from (foldl (\<lambda>pr te. on_event ts h p tmo te pr) pr evs) = idle_from pr
   \<or> idle_from (foldl (\<lambda>pr te. on_event ts h p tmo te pr) pr evs) \<in> fst ` set evs"
proof (induction evs arbitrary: pr)
  case Nil
  show ?case by simp
next
  case (Cons te evs)
  from Cons.IH[of "on_event ts h p tmo te pr"] on_event_idle_from[of ts h p tmo te pr]
  show ?case by auto
qed

lemma error_settles:
  assumes "(t, SocketError code) \<in> set evs"
  shows "\<exists>r. scanPort ts h p tmo t0 evs = Some r"
proof -
  from assms obtain pre post where evs: "evs = pre @ (t, SocketError code) # post"
    by (auto simp: in_set_conv_decomp)
  have "resolved (scanPort_events ts h p tmo t0 (pre @ [(t, SocketError code)]))"
    by (simp add: scanPort_events_def error_resolves)
  from scanPort_resolved_settles[OF this, of post] show ?thesis
    by (simp add: evs)
qed

lemma timeout_settles:
  assumes "0 < tmo" and "t0 + tmo \<le> t" and "\<forall>e\<in>set pre. fst e + tmo \<le> t"
  shows "\<exists>r. scanPort ts h p tmo t0 (pre @ (t, SocketTimeout) # post) = Some r"
proof -
  let ?pr = "scanPort_events ts h p tmo t0 pre"
  have "idle_from ?pr = t0 \<or> idle_from ?pr \<in> fst ` set pre"
    using events_idle_from[of ts h p tmo "probe_init t0" pre]
    by (simp add: scanPort_events_def probe_init_def)
  with assms(2,3) have "idle_from ?pr + tmo \<le> t"
    by auto
  from timeout_resolves[OF assms(1) this]
  have "resolved (scanPort_events ts h p tmo t0 (pre @ [(t, SocketTimeout)]))"
    by (simp add: scanPort_events_def)
  from scanPort_resolved_settles[OF this, of post] show ?thesis
    by simp
qed

lemma toString_ascii_first:
  "toString_ascii chunk 0 (min (length chunk) 256) = map of_char (take 256 chunk)"
proof -
  have "take (min (length chunk) 256) chunk = take 256 chunk"
    by (simp add: min_def)
  then show ?thesis by (simp add: toString_ascii_def)
qed

text \<open>
  C3, as amended: a probe settles with exactly one status, that of the first event that
  settles it. Once it has its result no later event changes it; and it gets a result
  from every run of events that holds a socket error, or an idle timeout that comes
  \<open>tmo\<close> ms or more after the start and after every event before it. Before the connection
  is made, a connection-refused or connection-reset error yields closed, and the idle
  timeout or any other error yields filtered. Once connected, the first data yields open,
  with the first 256 code units at most of the text decoded from the first 256 bytes at
  most of the chunk as banner (for ASCII data, those bytes) and with no banner when that
  text is empty; the expiry of the banner timer, 400 ms after the connection or later,
  yields open with no banner; and a connection-reset (or connection-refused) error that
  comes first yields closed, any other error filtered. With no settling event the probe
  stays pending. What an idle timeout after the connection yields is left open.
\<close>

theorem probe_classification:
  "(scanPort ts h p tmo t0 evs = Some r \<longrightarrow> scanPort ts h p tmo t0 (evs @ later) = Some r)
   \<and> ((t, SocketError code) \<in> set evs \<longrightarrow> (\<exists>r. scanPort ts h p tmo t0 evs = Some r))
   \<and> (0 < tmo \<and> t0 + tmo \<le> t \<and> (\<forall>e\<in>set pre. fst e + tmo \<le> t) \<longrightarrow>
        (\<exists>r. scanPort ts h p tmo t0 (pre @ (t, SocketTimeout) # post) = Some r))
   \<and> scanPort ts h p tmo t0 ((t, SocketError code) # post) =
     Some \<lparr>PortResult.port = p,
           status = (if code = ''ECONNREFUSED'' \<or> code = ''ECONNRESET'' then Closed else Filtered),
           duration = t - t0, banner = None\<rparr>
   \<and> (0 < tmo \<and> t0 + tmo \<le> t \<longrightarrow>
        scanPort ts h p tmo t0 ((t, SocketTimeout) # post) =
          Some \<lparr>PortResult.port = p, status = Filtered, duration = t - t0, banner = None\<rparr>)
   \<and> scanPort ts h p tmo t0 ((tc, Connect) # (t, Data chunk) # post) =
     Some \<lparr>PortResult.port = p, status = Open, duration = tc - t0,
           banner = (if take 256 (ts chunk 0 (min (length chunk) 256)) = [] then None
                     else Some (take 256 (ts chunk 0 (min (length chunk) 256))))\<rparr>
   \<and> (chunk \<noteq> [] \<and> ts chunk 0 (min (length chunk) 256) = map of_char (take 256 chunk) \<longrightarrow>
        scanPort ts h p tmo t0 ((tc, Connect) # (t, Data chunk) # post) =
          Some \<lparr>PortResult.port = p, status = Open, duration = tc - t0,
                banner = Some (map of_char (take 256 chunk))\<rparr>)
   \<and> (tc + 400 \<le> t \<longrightarrow>
        scanPort ts h p tmo t0 ((tc, Connect) # (t, BannerTimer) # post) =
          Some \<lparr>PortResult.port = p, status = Open, duration = tc - t0, banner = None\<rparr>)
   \<and> scanPort ts h p tmo t0 ((tc, Connect) # (t, SocketError code) # post) =
     Some \<lparr>PortResult.port = p,
           status = (if code = ''ECONNREFUSED'' \<or> code = ''ECONNRESET'' then Closed else Filtered),
           duration = t - t0, banner = None\<rparr>
   \<and> scanPort ts h p tmo t0 [] = None
   \<and> scanPort ts h p tmo t0 [(tc, Connect)] = None"
proof -
  have s1: "scanPort ts h p tmo t0 evs = Some r \<longrightarrow> scanPort ts h p tmo t0 (evs @ later) = Some r"
    by (simp add: scanPort_stable)
  have s2: "(t, SocketError code) \<in> set evs \<longrightarrow> (\<exists>r. scanPort ts h p tmo t0 evs = Some r)"
    by (simp add: error_settles)
  have s3: "0 < tmo \<and> t0 + tmo \<le> t \<and> (\<forall>e\<in>set pre. fst e + tmo \<le> t) \<longrightarrow>
        (\<exists>r. scanPort ts h p tmo t0 (pre @ (t, SocketTimeout) # post) = Some r)"
    using timeout_settles by blast
  have e1: "scanPort ts h p tmo t0 ((t, SocketError code) # post) =
     Some \<lparr>PortResult.port = p,
           status = (if code = ''ECONNREFUSED'' \<or> code = ''ECONNRESET'' then Closed else Filtered),
           duration = t - t0, banner = None\<rparr>"
    by (subst scanPort_settled_first) (simp_all add: on_event_def done_probe_def probe_init_def)
  have e2: "0 < tmo \<and> t0 + tmo \<le> t \<longrightarrow>
        scanPort ts h p tmo t0 ((t, SocketTimeout) # post) =
          Some \<lparr>PortResult.port = p, status = Filtered, duration = t - t0, banner = None\<rparr>"
  proof
    assume g: "0 < tmo \<and> t0 + tmo \<le> t"
    then have "resolved (on_event ts h p tmo (t, SocketTimeout) (probe_init t0))"
      by (intro timeout_resolves) (simp_all add: probe_init_def)
    from scanPort_settled_first[OF this] g
    show "scanPort ts h p tmo t0 ((t, SocketTimeout) # post) =
          Some \<lparr>PortResult.port = p, status = Filtered, duration = t - t0, banner = None\<rparr>"
      by (simp add: on_event_def done_probe_def probe_init_def)
  qed
  have e3: "scanPort ts h p tmo t0 ((tc, Connect) # (t, Data chunk) # post) =
     Some \<lparr>PortResult.port = p, status = Open, duration = tc - t0,
           banner = (if take 256 (ts chunk 0 (min (length chunk) 256)) = [] then None
                     else Some (take 256 (ts chunk 0 (min (length chunk) 256))))\<rparr>"
    by (subst scanPort_settled_second)
       (simp_all add: connect_first on_event_def done_probe_def probe_init_def)
  have e3a: "chunk \<noteq> [] \<and> ts chunk 0 (min (length chunk) 256) = map of_char (take 256 chunk) \<longrightarrow>
        scanPort ts h p tmo t0 ((tc, Connect) # (t, Data chunk) # post) =
          Some \<lparr>PortResult.port = p, status = Open, duration = tc - t0,
                banner = Some (map of_char (take 256 chunk))\<rparr>"
  proof
    assume a: "chunk \<noteq> [] \<and> ts chunk 0 (min (length chunk) 256) = map of_char (take 256 chunk)"
    then have "take 256 (ts chunk 0 (min (length chunk) 256)) = map of_char (take 256 chunk)"
      by (simp add: take_map)
    moreover from a have "map of_char (take 256 chunk) \<noteq> ([] :: nat list)"
      by simp
    ultimately show "scanPort ts h p tmo t0 ((tc, Connect) # (t, Data chunk) # post) =
          Some \<lparr>PortResult.port = p, status = Open, duration = tc - t0,
                banner = Some (map of_char (take 256 chunk))\<rparr>"
      by (simp only: e3 if_False)
  qed
  have e4: "tc + 400 \<le> t \<longrightarrow>
        scanPort ts h p tmo t0 ((tc, Connect) # (t, BannerTimer) # post) =
          Some \<lparr>PortResult.port = p, status = Open, duration = tc - t0, banner = None\<rparr>"
  proof
    assume g: "tc + 400 \<le> t"
    then have r: "resolved (on_event ts h p tmo (t, BannerTimer)
                    (on_event ts h p tmo (tc, Connect) (probe_init t0)))"
      by (simp add: connect_first on_event_def done_probe_def probe_init_def)
    from g show "scanPort ts h p tmo t0 ((tc, Connect) # (t, BannerTimer) # post) =
          Some \<lparr>PortResult.port = p, status = Open, duration = tc - t0, banner = None\<rparr>"
      by (subst scanPort_settled_second[OF r])
         (simp add: connect_first on_event_def done_probe_def probe_init_def)
  qed
  have e5: "scanPort ts h p tmo t0 ((tc, Connect) # (t, SocketError code) # post) =
     Some \<lparr>PortResult.port = p,
           status = (if code = ''ECONNREFUSED'' \<or> code = ''ECONNRESET'' then Closed else Filtered),
           duration = t - t0, banner = None\<rparr>"
    by (subst scanPort_settled_second)
       (simp_all add: connect_first on_event_def done_probe_def probe_init_def)
  have e7: "scanPort ts h p tmo t0 [] = None"
    by (simp add: scanPort_def scanPort_events_def probe_init_def)
  have e8: "scanPort ts h p tmo t0 [(tc, Connect)] = None"
    by (simp add: scanPort_def scanPort_events_def connect_first) (simp add: probe_init_def)
  from s1 s2 s3 e1 e2 e3 e3a e4 e5 e7 e8 show ?thesis by blast
qed

theorem probe_classification_witness:
  "scanPort toString_ascii ''10.0.0.1'' 22 300 0 [(5, Connect), (12, Data ''SSH-2.0'')]
     = Some \<lparr>PortResult.port = 22, status = Open, duration = 5,
             banner = Some (map of_char ''SSH-2.0'')\<rparr>
   \<and> scanPort toString_ascii ''10.0.0.1'' 22 300 0
       ([(5, Connect), (12, Data ''SSH-2.0'')] @ [(405, SocketError ''ECONNRESET'')])
     = Some \<lparr>PortResult.port = 22, status = Open, duration = 5,
             banner = Some (map of_char ''SSH-2.0'')\<rparr>
   \<and> (\<exists>r. scanPort toString_ascii ''10.0.0.1'' 22 300 0
              [(5, Connect), (405, SocketError ''ECONNRESET'')] = Some r)
   \<and> (\<exists>r. scanPort toString_ascii ''10.0.0.1'' 22 300 0
              ([(5, Connect)] @ (405, SocketTimeout) # []) = Some r)
   \<and> scanPort toString_ascii ''10.0.0.1'' 22 300 0 [(405, SocketTimeout)]
     = Some \<lparr>PortResult.port = 22, status = Filtered, duration = 405, banner = None\<rparr>
   \<and> scanPort toString_ascii ''10.0.0.1'' 22 300 0 [(5, Connect), (405, BannerTimer)]
     = Some \<lparr>PortResult.port = 22, status = Open, duration = 5, banner = None\<rparr>"
proof -
  let ?R = "\<lparr>PortResult.port = 22, status = Open, duration = 5,
             banner = Some (map of_char ''SSH-2.0'')\<rparr>"
  note T1 = probe_classification
    [of toString_ascii "''10.0.0.1''" 22 300 0 "[(5, Connect), (12, Data ''SSH-2.0'')]" ?R
        "[(405, SocketError ''ECONNRESET'')]" 12 "''x''" "[(5, Connect)]" "[]" 5 "''SSH-2.0''"]
  note T2 = probe_classification
    [of toString_ascii "''10.0.0.1''" 22 300 0 "[(5, Connect), (405, SocketError ''ECONNRESET'')]"
        ?R "[]" 405 "''ECONNRESET''" "[(5, Connect)]" "[]" 5 "''SSH-2.0''"]
  have dec: "''SSH-2.0'' \<noteq> [] \<and>
     toString_ascii ''SSH-2.0'' 0 (min (length ''SSH-2.0'') 256) = map of_char (take 256 ''SSH-2.0'')"
    using toString_ascii_first[of "''SSH-2.0''"] by simp
  from T1 dec have a: "scanPort toString_ascii ''10.0.0.1'' 22 300 0
       [(5, Connect), (12, Data ''SSH-2.0'')] = Some ?R"
    by simp
  from T1 a have b: "scanPort toString_ascii ''10.0.0.1'' 22 300 0
       ([(5, Connect), (12, Data ''SSH-2.0'')] @ [(405, SocketError ''ECONNRESET'')]) = Some ?R"
    by blast
  have mem: "(405, SocketError ''ECONNRESET'') \<in> set [(5, Connect), (405, SocketError ''ECONNRESET'')]"
    by simp
  from T2 mem have c: "\<exists>r. scanPort toString_ascii ''10.0.0.1'' 22 300 0
              [(5, Connect), (405, SocketError ''ECONNRESET'')] = Some r"
    by blast
  have g: "(0::int) < 300 \<and> (0::int) + 300 \<le> 405 \<and> (\<forall>e\<in>set [(5::int, Connect)]. fst e + 300 \<le> 405)"
    by simp
  from T2 g have d: "\<exists>r. scanPort toString_ascii ''10.0.0.1'' 22 300 0
              ([(5, Connect)] @ (405, SocketTimeout) # []) = Some r"
    by blast
  from T2 g have e: "scanPort toString_ascii ''10.0.0.1'' 22 300 0 [(405, SocketTimeout)]
     = Some \<lparr>PortResult.port = 22, status = Filtered, duration = 405 - 0, banner = None\<rparr>"
    by blast
  have g2: "(5::int) + 400 \<le> 405"
    by simp
  from T2 g2 have f: "scanPort toString_ascii ''10.0.0.1'' 22 300 0 [(5, Connect), (405, BannerTimer)]
     = Some \<lparr>PortResult.port = 22, status = Open, duration = 5 - 0, banner = None\<rparr>"
    by blast
  from a b c d e f show ?thesis by simp
qed

text \<open>
  C3, as stated, fails: the connection to port 22 succeeds at time 5 and the peer resets
  it at time 9, before any data and before the banner timer; the probe settles closed.
\<close>

theorem connect_then_reset_is_closed:
  "scanPort toString_ascii ''10.0.0.1'' 22 400 0 [(5, Connect), (9, SocketError ''ECONNRESET'')] =
     Some \<lparr>PortResult.port = 22, status = Closed, duration = 9, banner = None\<rparr>"
  by (simp add: scanPort_def scanPort_events_def on_event_def done_probe_def probe_init_def)

section \<open>Properties of the scanner service: clamping\<close>

lemma sanitize_example_com: "sanitizeTarget ''example.com'' = ''example.com''"
  by code_simp

lemma validate_example_com: "validateTarget ''example.com''"
  by code_simp



section \<open>Properties of sanitizing, validation and the start of a scan\<close>

text \<open>
  The normalization as the specification words it: strip a leading scheme, everything from the
  first \<open>/\<close> on, and a trailing \<open>:port\<close>, that is a final \<open>:\<close> followed by the
  digits of a port.
\<close>

definition strip_trailing_port :: "string \<Rightarrow> string" where
  "strip_trailing_port s =
     (case dropWhile is_digit (rev s) of
        [] \<Rightarrow> s
      | c # h \<Rightarrow>
          if c = CHR '':'' \<and> takeWhile is_digit (rev s) \<noteq> [] then rev h else s)"

definition normalize_claim :: "string \<Rightarrow> string" where
  "normalize_claim input =
     strip_trailing_port (takeWhile (\<lambda>c. c \<noteq> CHR ''/'') (strip_protocol input))"

lemma sanitizeTarget_shape:
  "sanitizeTarget input =
     takeWhile (\<lambda>c. c \<noteq> CHR '':'') (takeWhile (\<lambda>c. c \<noteq> CHR ''/'') (strip_protocol (trim input)))"
  by (simp add: sanitizeTarget_def first_part_takeWhile)

lemma strip_protocol_http:
  assumes "map ascii_lower p = ''http://''"
  shows "strip_protocol (p @ r) = r"
proof -
  from assms have "length (map ascii_lower p) = 7" by simp
  then have len: "length p = 7" by simp
  with assms show ?thesis by (simp add: strip_protocol_def)
qed

lemma strip_protocol_https:
  assumes "map ascii_lower p = ''https://''"
  shows "strip_protocol (p @ r) = r"
proof -
  from assms have "length (map ascii_lower p) = 8" by simp
  then have len: "length p = 8" by simp
  have "map ascii_lower (take 7 p) = take 7 (map ascii_lower p)"
    by (simp add: take_map)
  with assms have ne: "map ascii_lower (take 7 p) \<noteq> ''http://''"
    by simp
  from len assms ne show ?thesis by (simp add: strip_protocol_def)
qed

lemma validateTarget_iff:
  "validateTarget t \<longleftrightarrow> t \<noteq> [] \<and> length t \<le> 255 \<and> (four_digit_groups t \<or> dns_hostname t)"
  by (auto simp: validateTarget_def ipv4_four_digit_groups hostname_dns_hostname)

lemma startScan_invalid:
  "\<not> validateTarget (sanitizeTarget (target config)) \<Longrightarrow>
     startScan config callbacks now w = (Inl (InvalidTarget (target config)), w, None)"
  by (simp add: startScan_def)

lemma startScan_valid:
  "validateTarget (sanitizeTarget (target config)) \<Longrightarrow>
     fst (startScan config callbacks now w) = Inr (sanitizeTarget (target config))"
  by (simp add: startScan_def Let_def split: sum.splits)

lemma sanitize_ip_url: "sanitizeTarget ''http://192.168.1.1:8080/path'' = ''192.168.1.1''"
  by code_simp

lemma sanitize_host_url: "sanitizeTarget ''https://example.com/'' = ''example.com''"
  by code_simp

lemma sanitize_empty: "sanitizeTarget [] = []"
  by code_simp

lemma validate_empty: "\<not> validateTarget []"
  by (simp add: validateTarget_def)

lemma validate_too_long: "length t > 255 \<Longrightarrow> \<not> validateTarget t"
  by (simp add: validateTarget_def)

lemma drop_leading_none: "drop_one ws s = None \<Longrightarrow> drop_leading ws s = s"
  by (simp add: drop_leading.simps)

lemma sanitize_300: "sanitizeTarget (replicate 300 (CHR ''a'')) = replicate 300 (CHR ''a'')"
proof -
  let ?s = "replicate 300 (CHR ''a'')"
  have hd: "?s = CHR ''a'' # replicate 299 (CHR ''a'')"
    by (simp add: numeral_eq_Suc)
  have d1: "drop_one WhiteSpace ?s = None"
    by (subst hd) (simp add: WhiteSpace_def)
  have t1: "drop_leading WhiteSpace ?s = ?s"
    by (rule drop_leading_none[OF d1])
  have d2: "drop_one (map rev WhiteSpace) ?s = None"
    by (subst hd) (simp add: WhiteSpace_def)
  have t2: "drop_leading (map rev WhiteSpace) ?s = ?s"
    by (rule drop_leading_none[OF d2])
  have tr: "trim ?s = ?s"
    by (simp add: trim_def t1 t2)
  have "strip_protocol (CHR ''a'' # r) = CHR ''a'' # r" for r
    by (simp add: strip_protocol_def ascii_lower_def)
  then have sp: "strip_protocol ?s = ?s"
    by (subst (1 2) hd) simp
  show ?thesis
    by (simp add: sanitizeTarget_shape tr sp)
qed

lemma validate_999: "validateTarget ''999.999.999.999''"
  by code_simp

lemma lower_HTTP: "map ascii_lower ''HTTP://'' = ''http://''"
  by code_simp

lemma validate_ip_url: "validateTarget (sanitizeTarget ''http://192.168.1.1:8080/path'')"
  by code_simp

text \<open>
  C5, as amended: for every input string, \<open>sanitizeTarget\<close> trims the white space around
  it, strips a leading \<open>http://\<close> or \<open>https://\<close> in any letter case, then everything
  from the first \<open>/\<close> on, then everything from the first \<open>:\<close> on (a trailing
  \<open>:port\<close> with it). The sanitized target is accepted exactly when it is not empty, has
  255 characters at most and is either four dot-separated groups of one to three decimal
  digits, with no range check on a group, or a sequence of dot-separated labels of 1 to
  63 letters, digits and hyphens that neither start nor end with a hyphen. \<open>startScan\<close>
  returns the sanitized target when it is accepted; otherwise it throws the
  invalid-target error, leaves the state as it was and starts no scan, so no probe is
  launched. The sanitized \<open>http://192.168.1.1:8080/path\<close> is \<open>192.168.1.1\<close> and the
  sanitized \<open>https://example.com/\<close> is \<open>example.com\<close>; the empty string and a string
  of 300 letters \<open>a\<close> are rejected; \<open>999.999.999.999\<close> is accepted.
\<close>

theorem target_normalization_and_validation:
  "sanitizeTarget input =
     takeWhile (\<lambda>c. c \<noteq> CHR '':'')
       (takeWhile (\<lambda>c. c \<noteq> CHR ''/'') (strip_protocol (trim input)))
   \<and> (map ascii_lower p = ''http://'' \<or> map ascii_lower p = ''https://''
        \<longrightarrow> strip_protocol (p @ r) = r)
   \<and> (validateTarget t \<longleftrightarrow>
        t \<noteq> [] \<and> length t \<le> 255 \<and> (four_digit_groups t \<or> dns_hostname t))
   \<and> (validateTarget (sanitizeTarget (target config)) \<longrightarrow>
        fst (startScan config callbacks now w) = Inr (sanitizeTarget (target config)))
   \<and> (\<not> validateTarget (sanitizeTarget (target config)) \<longrightarrow>
        startScan config callbacks now w = (Inl (InvalidTarget (target config)), w, None))
   \<and> sanitizeTarget ''http://192.168.1.1:8080/path'' = ''192.168.1.1''
   \<and> sanitizeTarget ''https://example.com/'' = ''example.com''
   \<and> \<not> validateTarget (sanitizeTarget '''')
   \<and> \<not> validateTarget (sanitizeTarget (replicate 300 (CHR ''a'')))
   \<and> validateTarget ''999.999.999.999''"
proof -
  have a: "map ascii_lower p = ''http://'' \<or> map ascii_lower p = ''https://''
        \<longrightarrow> strip_protocol (p @ r) = r"
  proof
    assume "map ascii_lower p = ''http://'' \<or> map ascii_lower p = ''https://''"
    then show "strip_protocol (p @ r) = r"
    proof
      assume "map ascii_lower p = ''http://''"
      then show ?thesis by (rule strip_protocol_http)
    next
      assume "map ascii_lower p = ''https://''"
      then show ?thesis by (rule strip_protocol_https)
    qed
  qed
  have b: "validateTarget (sanitizeTarget (target config)) \<longrightarrow>
        fst (startScan config callbacks now w) = Inr (sanitizeTarget (target config))"
    by (simp add: startScan_valid)
  have c: "\<not> validateTarget (sanitizeTarget (target config)) \<longrightarrow>
        startScan config callbacks now w = (Inl (InvalidTarget (target config)), w, None)"
    by (simp add: startScan_invalid)
  have d: "\<not> validateTarget (sanitizeTarget '''')"
    by (simp add: sanitize_empty validate_empty)
  have e: "\<not> validateTarget (sanitizeTarget (replicate 300 (CHR ''a'')))"
    by (simp add: sanitize_300 validate_too_long)
  from sanitizeTarget_shape[of input] a validateTarget_iff[of t] b c
    sanitize_ip_url sanitize_host_url d e validate_999
  show ?thesis by blast
qed

theorem target_normalization_and_validation_witness:
  "map ascii_lower ''HTTP://'' = ''http://''
   \<and> strip_protocol (''HTTP://'' @ ''Example.com:80'') = ''Example.com:80''
   \<and> validateTarget (sanitizeTarget ''http://192.168.1.1:8080/path'')
   \<and> fst (startScan \<lparr>scanId = ''s1'', target = ''http://192.168.1.1:8080/path'',
                       ScanConfig.ports = [80], ScanConfig.concurrency = 50,
                       ScanConfig.timeout = 400\<rparr> (recorder (\<lambda>e. False)) 0 world_init)
       = Inr ''192.168.1.1''
   \<and> \<not> validateTarget (sanitizeTarget '''')
   \<and> startScan \<lparr>scanId = ''s2'', target = '''', ScanConfig.ports = [80],
                  ScanConfig.concurrency = 50, ScanConfig.timeout = 400\<rparr>
         (recorder (\<lambda>e. False)) 0 world_init
       = (Inl (InvalidTarget ''''), world_init, None)"
proof -
  let ?ok = "\<lparr>scanId = ''s1'', target = ''http://192.168.1.1:8080/path'',
               ScanConfig.ports = [80], ScanConfig.concurrency = 50,
               ScanConfig.timeout = 400\<rparr>"
  let ?bad = "\<lparr>scanId = ''s2'', target = '''', ScanConfig.ports = [80],
                ScanConfig.concurrency = 50, ScanConfig.timeout = 400\<rparr>"
  note T1 = target_normalization_and_validation
    [of "''x''" "''HTTP://''" "''Example.com:80''" "''example.com''" ?ok
        "recorder (\<lambda>e. False)" 0 world_init]
  note T2 = target_normalization_and_validation
    [of "''x''" "''HTTP://''" "''Example.com:80''" "''example.com''" ?bad
        "recorder (\<lambda>e. False)" 0 world_init]
  have v1: "validateTarget (sanitizeTarget (target ?ok))"
    using validate_ip_url by simp
  have v2: "\<not> validateTarget (sanitizeTarget (target ?bad))"
    by (simp add: sanitize_empty validate_empty)
  from T1 lower_HTTP have a: "strip_protocol (''HTTP://'' @ ''Example.com:80'') = ''Example.com:80''"
    by blast
  from T1 v1 have "fst (startScan ?ok (recorder (\<lambda>e. False)) 0 world_init)
       = Inr (sanitizeTarget (target ?ok))"
    by blast
  then have b: "fst (startScan ?ok (recorder (\<lambda>e. False)) 0 world_init) = Inr ''192.168.1.1''"
    by (simp add: sanitize_ip_url)
  from T2 v2 have "startScan ?bad (recorder (\<lambda>e. False)) 0 world_init
       = (Inl (InvalidTarget (target ?bad)), world_init, None)"
    by blast
  then have c: "startScan ?bad (recorder (\<lambda>e. False)) 0 world_init
       = (Inl (InvalidTarget ''''), world_init, None)"
    by simp
  from v2 have d: "\<not> validateTarget (sanitizeTarget '''')"
    by simp
  from lower_HTTP a validate_ip_url b d c show ?thesis by blast
qed

lemma sanitize_ipv6: "sanitizeTarget ''2001:db8::1'' = ''2001''"
  by code_simp

lemma validate_2001: "validateTarget ''2001''"
  by code_simp

lemma sanitize_spaced: "sanitizeTarget ''  example.com  '' = ''example.com''"
  by code_simp

lemma normalize_claim_ipv6: "normalize_claim ''2001:db8::1'' = ''2001:db8:''"
  by code_simp

lemma normalize_claim_spaced: "normalize_claim ''  example.com  '' = ''  example.com  ''"
  by code_simp

lemma normalize_claim_url:
  "normalize_claim ''http://192.168.1.1:8080/path'' = ''192.168.1.1''"
  by code_simp

lemma not_valid_ipv6_rest: "\<not> validateTarget ''2001:db8:''"
  by code_simp

lemma not_valid_spaced: "\<not> validateTarget ''  example.com  ''"
  by code_simp

text \<open>
  C5, as stated, fails. With the scheme, the path and a trailing \<open>:port\<close> stripped,
  \<open>2001:db8::1\<close> becomes \<open>2001:db8:\<close> and \<open>example.com\<close> between spaces stays as it
  is; neither is an accepted target, so \<open>startScan\<close> would fail on both. The
  code cuts the first at its first \<open>:\<close> and trims the second: \<open>startScan\<close> accepts both
  and starts a scan of \<open>2001\<close> and of \<open>example.com\<close>.
\<close>

theorem claimed_normalization_rejects_what_startScan_accepts:
  "normalize_claim ''2001:db8::1'' = ''2001:db8:''
   \<and> \<not> validateTarget (normalize_claim ''2001:db8::1'')
   \<and> fst (startScan \<lparr>scanId = ''s1'', target = ''2001:db8::1'', ScanConfig.ports = [80],
                       ScanConfig.concurrency = 10, ScanConfig.timeout = 400\<rparr>
             (recorder (\<lambda>e. False)) 0 world_init) = Inr ''2001''
   \<and> normalize_claim ''  example.com  '' = ''  example.com  ''
   \<and> \<not> validateTarget (normalize_claim ''  example.com  '')
   \<and> fst (startScan \<lparr>scanId = ''s2'', target = ''  example.com  '', ScanConfig.ports = [80],
                       ScanConfig.concurrency = 10, ScanConfig.timeout = 400\<rparr>
             (recorder (\<lambda>e. False)) 0 world_init) = Inr ''example.com''"
proof -
  let ?c1 = "\<lparr>scanId = ''s1'', target = ''2001:db8::1'', ScanConfig.ports = [80],
              ScanConfig.concurrency = 10, ScanConfig.timeout = 400\<rparr>"
  let ?c2 = "\<lparr>scanId = ''s2'', target = ''  example.com  '', ScanConfig.ports = [80],
              ScanConfig.concurrency = 10, ScanConfig.timeout = 400\<rparr>"
  have v1: "validateTarget (sanitizeTarget (target ?c1))"
    by (simp add: sanitize_ipv6 validate_2001)
  have v2: "validateTarget (sanitizeTarget (target ?c2))"
    by (simp add: sanitize_spaced validate_example_com)
  from startScan_valid [OF v1, of "recorder (\<lambda>e. False)" 0 world_init]
  have a: "fst (startScan ?c1 (recorder (\<lambda>e. False)) 0 world_init) = Inr ''2001''"
    by (simp add: sanitize_ipv6)
  from startScan_valid [OF v2, of "recorder (\<lambda>e. False)" 0 world_init]
  have b: "fst (startScan ?c2 (recorder (\<lambda>e. False)) 0 world_init) = Inr ''example.com''"
    by (simp add: sanitize_spaced)
  have c: "\<not> validateTarget (normalize_claim ''2001:db8::1'')"
    by (simp add: normalize_claim_ipv6 not_valid_ipv6_rest)
  have d: "\<not> validateTarget (normalize_claim ''  example.com  '')"
    by (simp add: normalize_claim_spaced not_valid_spaced)
  from normalize_claim_ipv6 c a normalize_claim_spaced d b show ?thesis
    by (intro conjI)
qed

section \<open>Properties of the promise pool\<close>

text \<open>
  \<open>settle_all\<close> lets the probes of a scan settle one after the other, each with its
  result and the time of its callback. \<open>eleven_ports\<close> is a scan of eleven ports at the
  least concurrency the service grants, so that one port is still to launch while the
  first ten are in flight.
\<close>

definition settle_all ::
  "'w ScanOptions \<Rightarrow> (PortResult \<times> int) list \<Rightarrow> 'w \<times> scan_state \<Rightarrow> 'w \<times> scan_state" where
  "settle_all opts rs c = foldl (\<lambda>c r. probe_settled opts (fst r) (snd r) c) c rs"

definition filtered_at :: "int \<Rightarrow> nat \<Rightarrow> PortResult \<times> int" where
  "filtered_at t p =
     (\<lparr>PortResult.port = p, status = Filtered, duration = t, banner = None\<rparr>, t)"

definition eleven_ports :: ScanConfig where
  "eleven_ports =
     \<lparr>scanId = ''s1'', target = ''example.com'',
      ScanConfig.ports = [21, 22, 23, 25, 53, 80, 110, 135, 139, 143, 443],
      ScanConfig.concurrency = 10, ScanConfig.timeout = 400\<rparr>"

lemma on_settled_aborted:
  assumes "signal_aborted opts w" and "Suc (scanned st) < length (ScanOptions.ports opts)"
  shows "on_settled opts r now (w, st) = Inr (w, st\<lparr>scanned := scanned st + 1\<rparr>)"
  using assms by (simp add: on_settled_def Let_def)

lemma probe_settled_aborted:
  assumes "signal_aborted opts w" and "Suc (scanned st) < length (ScanOptions.ports opts)"
  shows "fst (probe_settled opts r now (w, st)) = w
         \<and> outcome (snd (probe_settled opts r now (w, st))) = outcome st
         \<and> results (snd (probe_settled opts r now (w, st))) = results st
         \<and> unhandled (snd (probe_settled opts r now (w, st))) = unhandled st
         \<and> scanned (snd (probe_settled opts r now (w, st))) \<le> Suc (scanned st)
         \<and> in_flight (snd (probe_settled opts r now (w, st))) =
             remove1 (PortResult.port r) (in_flight st)"
proof (cases "PortResult.port r \<in> set (in_flight st)")
  case True
  have "Suc (scanned (st\<lparr>in_flight := remove1 (PortResult.port r) (in_flight st)\<rparr>))
          < length (ScanOptions.ports opts)"
    using assms(2) by simp
  from on_settled_aborted[OF assms(1) this, of r now] True show ?thesis
    by (simp add: probe_settled_def)
next
  case False
  then show ?thesis
    by (simp add: probe_settled_def remove1_idem)
qed

lemma settle_all_aborted:
  assumes "signal_aborted opts w"
  shows "scanned st + length rs < length (ScanOptions.ports opts) \<Longrightarrow>
         fst (settle_all opts rs (w, st)) = w
         \<and> outcome (snd (settle_all opts rs (w, st))) = outcome st
         \<and> results (snd (settle_all opts rs (w, st))) = results st
         \<and> unhandled (snd (settle_all opts rs (w, st))) = unhandled st
         \<and> in_flight (snd (settle_all opts rs (w, st))) =
             foldl (\<lambda>xs r. remove1 (PortResult.port (fst r)) xs) (in_flight st) rs"
proof (induction rs arbitrary: st)
  case Nil
  show ?case by (simp add: settle_all_def)
next
  case (Cons r rs)
  let ?c = "probe_settled opts (fst r) (snd r) (w, st)"
  from Cons.prems have lt: "Suc (scanned st) < length (ScanOptions.ports opts)"
    by simp
  note step = probe_settled_aborted[OF assms lt, of "fst r" "snd r"]
  from step have w: "fst ?c = w" by blast
  from step Cons.prems have "scanned (snd ?c) + length rs < length (ScanOptions.ports opts)"
    by simp
  from Cons.IH[OF this] have ih:
    "fst (settle_all opts rs (w, snd ?c)) = w
     \<and> outcome (snd (settle_all opts rs (w, snd ?c))) = outcome (snd ?c)
     \<and> results (snd (settle_all opts rs (w, snd ?c))) = results (snd ?c)
     \<and> unhandled (snd (settle_all opts rs (w, snd ?c))) = unhandled (snd ?c)
     \<and> in_flight (snd (settle_all opts rs (w, snd ?c))) =
             foldl (\<lambda>xs r. remove1 (PortResult.port (fst r)) xs) (in_flight (snd ?c)) rs" .
  have "?c = (w, snd ?c)"
    using w by (simp add: prod_eq_iff)
  moreover have "settle_all opts (r # rs) (w, st) = settle_all opts rs ?c"
    by (simp add: settle_all_def)
  ultimately have unfold: "settle_all opts (r # rs) (w, st) = settle_all opts rs (w, snd ?c)"
    by simp
  have a: "outcome (snd ?c) = outcome st" using step by blast
  have b: "results (snd ?c) = results st" using step by blast
  have c: "unhandled (snd ?c) = unhandled st" using step by blast
  have d: "in_flight (snd ?c) = remove1 (PortResult.port (fst r)) (in_flight st)"
    using step by blast
  show ?case
    unfolding unfold using ih by (simp only: a b c d foldl_Cons simp_thms)
qed

lemma launch_stop:
  "\<not> (index st < length (ScanOptions.ports opts)
      \<and> int (index st) - int (length (results st)) < ScanOptions.concurrency opts)
   \<Longrightarrow> launch opts st = st"
  by (subst launch.simps) auto

lemma launch_step:
  "index st < length (ScanOptions.ports opts) \<Longrightarrow>
   int (index st) - int (length (results st)) < ScanOptions.concurrency opts \<Longrightarrow>
   launch opts st =
     launch opts (st\<lparr>index := index st + 1,
                      in_flight := in_flight st @ [ScanOptions.ports opts ! index st]\<rparr>)"
  by (subst launch.simps) auto

lemma next_probe_resting:
  "\<not> signal_aborted opts w \<Longrightarrow>
   \<not> (index st < length (ScanOptions.ports opts)
      \<and> int (index st) - int (length (results st)) < ScanOptions.concurrency opts) \<Longrightarrow>
   next_probe opts (w, st) = Inr (w, st)"
  by (simp add: next_probe_def Let_def launch_stop)

lemma repeat_next_resting:
  "\<not> signal_aborted opts w \<Longrightarrow>
   \<not> (index st < length (ScanOptions.ports opts)
      \<and> int (index st) - int (length (results st)) < ScanOptions.concurrency opts) \<Longrightarrow>
   repeat_next n opts (w, st) = Inr (w, st)"
  by (induction n) (simp_all add: next_probe_resting)

lemma eleven_ports_launch:
  "launch (scan_options eleven_ports cbs ''example.com'' 0)
     \<lparr>results = [], scanned = 0, index = 0, scanStart = 0, lastProgressTime = 0,
      in_flight = [], outcome = Pending, unhandled = 0\<rparr>
   = \<lparr>results = [], scanned = 0, index = 10, scanStart = 0, lastProgressTime = 0,
      in_flight = [21, 22, 23, 25, 53, 80, 110, 135, 139, 143], outcome = Pending,
      unhandled = 0\<rparr>"
  by (simp add: launch_step launch_stop scan_options_def eleven_ports_def)

lemma eleven_ports_runScan:
  assumes "0 \<notin> aborted_signals w"
  shows "runScan (scan_options eleven_ports cbs ''example.com'' 0) 0 w =
     (w, \<lparr>results = [], scanned = 0, index = 10, scanStart = 0, lastProgressTime = 0,
          in_flight = [21, 22, 23, 25, 53, 80, 110, 135, 139, 143], outcome = Pending,
          unhandled = 0\<rparr>)"
proof -
  let ?opts = "scan_options eleven_ports cbs ''example.com'' 0"
  let ?ini = "\<lparr>results = [], scanned = 0, index = 0, scanStart = 0, lastProgressTime = 0,
      in_flight = [], outcome = Pending, unhandled = 0\<rparr>"
  let ?fin = "\<lparr>results = [], scanned = 0, index = 10, scanStart = 0, lastProgressTime = 0,
          in_flight = [21, 22, 23, 25, 53, 80, 110, 135, 139, 143], outcome = Pending,
          unhandled = 0\<rparr>"
  have na: "\<not> signal_aborted ?opts w"
    using assms by (simp add: signal_aborted_def scan_options_def)
  have len: "length (ScanOptions.ports ?opts) = 11"
    by (simp add: scan_options_def eleven_ports_def)
  have conc: "ScanOptions.concurrency ?opts = 10"
    by (simp add: scan_options_def eleven_ports_def)
  have n: "nat (min (ScanOptions.concurrency ?opts) (int (length (ScanOptions.ports ?opts))))
             = Suc 9"
    by (simp add: len conc)
  have first: "next_probe ?opts (w, ?ini) = Inr (w, ?fin)"
    using na by (simp add: next_probe_def Let_def eleven_ports_launch)
  have rest: "repeat_next 9 ?opts (w, ?fin) = Inr (w, ?fin)"
    by (rule repeat_next_resting[OF na]) (simp add: len conc)
  have rn: "repeat_next (Suc 9) ?opts (w, ?ini) = Inr (w, ?fin)"
    by (simp only: repeat_next.simps first sum.case rest)
  have rn': "repeat_next
               (nat (min (ScanOptions.concurrency ?opts) (int (length (ScanOptions.ports ?opts)))))
               ?opts (w, ?ini) = Inr (w, ?fin)"
    by (simp only: n rn)
  show ?thesis
    unfolding runScan_def Let_def rn'
    by (simp add: len)
qed

lemma startScan_started:
  assumes "validateTarget (sanitizeTarget (target config))"
    and "runScan (scan_options config callbacks (sanitizeTarget (target config)) (controllers w))
           now
           (w\<lparr>controllers := controllers w + 1,
              activeScans := (activeScans w)(scanId config \<mapsto> controllers w),
              console := console w @
                [LogScan (scanId config) (sanitizeTarget (target config))
                   (length (ScanConfig.ports config))
                   (max 10 (min (ScanConfig.concurrency config) 500))
                   (if length (ScanConfig.ports config) > 500
                    then min (ScanConfig.timeout config) 400
                    else min (ScanConfig.timeout config) 800)]\<rparr>) = (w', st)"
    and "outcome st \<noteq> Rejected"
  shows "startScan config callbacks now w =
           (Inr (sanitizeTarget (target config)), w',
            Some (scan_options config callbacks (sanitizeTarget (target config)) (controllers w),
                  st))"
proof -
  have o: "ScanOptions.concurrency
             (scan_options config callbacks (sanitizeTarget (target config)) (controllers w))
           = max 10 (min (ScanConfig.concurrency config) 500)"
    "ScanOptions.timeout
             (scan_options config callbacks (sanitizeTarget (target config)) (controllers w))
           = (if length (ScanConfig.ports config) > 500
              then min (ScanConfig.timeout config) 400
              else min (ScanConfig.timeout config) 800)"
    by (simp_all add: scan_options_def)
  show ?thesis
    unfolding startScan_def Let_def o
    using assms by simp
qed

lemma eleven_ports_startScan:
  "startScan eleven_ports (recorder (\<lambda>e. False)) 0 world_init =
     (Inr ''example.com'',
      world_init\<lparr>controllers := 1, activeScans := [''s1'' \<mapsto> 0],
                 console := [LogScan ''s1'' ''example.com'' 11 10 400]\<rparr>,
      Some (scan_options eleven_ports (recorder (\<lambda>e. False)) ''example.com'' 0,
            \<lparr>results = [], scanned = 0, index = 10, scanStart = 0, lastProgressTime = 0,
             in_flight = [21, 22, 23, 25, 53, 80, 110, 135, 139, 143], outcome = Pending,
             unhandled = 0\<rparr>))"
proof -
  have v: "validateTarget (sanitizeTarget (target eleven_ports))"
    by (simp add: eleven_ports_def sanitize_example_com validate_example_com)
  have t: "sanitizeTarget (target eleven_ports) = ''example.com''"
    by (simp add: eleven_ports_def sanitize_example_com)
  have na: "0 \<notin> aborted_signals (world_init\<lparr>controllers := 1, activeScans := [''s1'' \<mapsto> 0],
                 console := [LogScan ''s1'' ''example.com'' 11 10 400]\<rparr>)"
    by (simp add: world_init_def)
  have r: "runScan (scan_options eleven_ports (recorder (\<lambda>e. False))
                     (sanitizeTarget (target eleven_ports)) (controllers world_init)) 0
             (world_init\<lparr>controllers := controllers world_init + 1,
                activeScans := (activeScans world_init)(scanId eleven_ports \<mapsto> controllers world_init),
                console := console world_init @
                  [LogScan (scanId eleven_ports) (sanitizeTarget (target eleven_ports))
                     (length (ScanConfig.ports eleven_ports))
                     (max 10 (min (ScanConfig.concurrency eleven_ports) 500))
                     (if length (ScanConfig.ports eleven_ports) > 500
                      then min (ScanConfig.timeout eleven_ports) 400
                      else min (ScanConfig.timeout eleven_ports) 800)]\<rparr>)
           = (world_init\<lparr>controllers := 1, activeScans := [''s1'' \<mapsto> 0],
                 console := [LogScan ''s1'' ''example.com'' 11 10 400]\<rparr>,
              \<lparr>results = [], scanned = 0, index = 10, scanStart = 0, lastProgressTime = 0,
               in_flight = [21, 22, 23, 25, 53, 80, 110, 135, 139, 143], outcome = Pending,
               unhandled = 0\<rparr>)"
  proof -
    have c0: "controllers world_init = 0"
      by (simp add: world_init_def)
    have w2: "world_init\<lparr>controllers := 0 + 1,
                activeScans := (activeScans world_init)(scanId eleven_ports \<mapsto> 0),
                console := console world_init @
                  [LogScan (scanId eleven_ports) ''example.com''
                     (length (ScanConfig.ports eleven_ports))
                     (max 10 (min (ScanConfig.concurrency eleven_ports) 500))
                     (if length (ScanConfig.ports eleven_ports) > 500
                      then min (ScanConfig.timeout eleven_ports) 400
                      else min (ScanConfig.timeout eleven_ports) 800)]\<rparr>
              = world_init\<lparr>controllers := 1, activeScans := [''s1'' \<mapsto> 0],
                 console := [LogScan ''s1'' ''example.com'' 11 10 400]\<rparr>"
      by (simp add: world_init_def eleven_ports_def)
    show ?thesis
      unfolding t c0 unfolding w2 by (rule eleven_ports_runScan [OF na])
  qed
  from startScan_started [OF v r] show ?thesis
    by (simp add: t world_init_def)
qed

text \<open>
  C1 does not hold of the code. A scan of eleven ports starts with ten probes in flight
  and one port left to launch. The scan is aborted; the abort succeeds and removes the
  registry entry. The ten probes then settle: none is in flight any more, no result was
  accepted, no probe was launched in their place, and yet the promise of \<open>runScan\<close> is
  still pending and the caller has received no call, \<open>onComplete\<close> included. After an
  abort the callback compares \<open>scanned\<close> with the number of all ports, which the
  launched probes alone never reach.
\<close>

theorem abort_with_ports_left_never_completes:
  "(case startScan eleven_ports (recorder (\<lambda>e. False)) 0 world_init of
      (r, w, Some (opts, st)) \<Rightarrow>
        (let a = abortScan ''s1'' w;
             c = settle_all opts
                   (map (filtered_at 400) [21, 22, 23, 25, 53, 80, 110, 135, 139, 143])
                   (snd a, st)
         in r = Inr ''example.com''
            \<and> index st = 10 \<and> in_flight st = [21, 22, 23, 25, 53, 80, 110, 135, 139, 143]
            \<and> fst a \<and> \<not> isActive ''s1'' (snd a)
            \<and> in_flight (snd c) = [] \<and> results (snd c) = []
            \<and> outcome (snd c) = Pending
            \<and> caller (fst c) = [])
    | _ \<Rightarrow> False)"
proof -
  let ?w = "world_init\<lparr>controllers := 1, activeScans := [''s1'' \<mapsto> 0],
                 console := [LogScan ''s1'' ''example.com'' 11 10 400]\<rparr>"
  let ?opts = "scan_options eleven_ports (recorder (\<lambda>e. False)) ''example.com'' 0"
  let ?fin = "\<lparr>results = [], scanned = 0, index = 10, scanStart = 0, lastProgressTime = 0,
             in_flight = [21, 22, 23, 25, 53, 80, 110, 135, 139, 143], outcome = Pending,
             unhandled = 0\<rparr>"
  let ?rs = "map (filtered_at 400) [21, 22, 23, 25, 53, 80, 110, 135, 139, 143]"
  let ?a = "abortScan ''s1'' ?w"
  let ?c = "settle_all ?opts ?rs (snd ?a, ?fin)"
  have ret: "fst ?a"
    by (simp add: abortScan_def world_init_def)
  have gone: "\<not> isActive ''s1'' (snd ?a)"
    by (simp add: abortScan_def delete_scan_def isActive_def world_init_def)
  have sig: "signal_aborted ?opts (snd ?a)"
    by (simp add: signal_aborted_def scan_options_def abortScan_def delete_scan_def
        world_init_def)
  have quiet: "caller (snd ?a) = []"
    by (simp add: abortScan_def delete_scan_def world_init_def)
  have bound: "scanned ?fin + length ?rs < length (ScanOptions.ports ?opts)"
    by (simp add: scan_options_def eleven_ports_def)
  note drain = settle_all_aborted [OF sig bound]
  from drain have w: "fst ?c = snd ?a"
    by blast
  from drain have out: "outcome (snd ?c) = Pending"
    by simp
  from drain have res: "results (snd ?c) = []"
    by simp
  from drain have "in_flight (snd ?c) =
      foldl (\<lambda>xs r. remove1 (PortResult.port (fst r)) xs) (in_flight ?fin) ?rs"
    by blast
  then have none: "in_flight (snd ?c) = []"
    by (simp add: filtered_at_def)
  from ret gone none res out quiet w show ?thesis
    by (simp only: eleven_ports_startScan prod.case option.case Let_def)
       (simp only: scan_state.simps simp_thms)
qed

text \<open>
  C2 does not hold of the code. A scan of one port is started with an \<open>onResult\<close> that
  throws. When the probe settles, the exception leaves the \<open>then\<close> callback as a
  rejection nobody handles: the promise of \<open>runScan\<close> stays pending, so the \<open>catch\<close>
  handler of \<open>startScan\<close> never runs. Nothing but the start of the scan is logged, the
  scan id stays in the registry, and the caller got the one \<open>onResult\<close> call and no
  \<open>onComplete\<close>.
\<close>

theorem throwing_onResult_leaves_scan_hanging:
  "(case startScan \<lparr>scanId = ''s1'', target = ''example.com'', ScanConfig.ports = [80],
                     ScanConfig.concurrency = 10, ScanConfig.timeout = 400\<rparr>
           (recorder (\<lambda>e. case e of OnResult x \<Rightarrow> True | _ \<Rightarrow> False)) 0 world_init of
      (r, w, Some (opts, st)) \<Rightarrow>
        (let c = settle_all opts [filtered_at 400 80] (w, st)
         in r = Inr ''example.com''
            \<and> in_flight st = [80]
            \<and> caller (fst c) =
                 [OnResult \<lparr>PortResult.port = 80, status = Filtered, duration = 400,
                            banner = None\<rparr>]
            \<and> console (fst c) = [LogScan ''s1'' ''example.com'' 1 10 400]
            \<and> isActive ''s1'' (fst c)
            \<and> in_flight (snd c) = [] \<and> outcome (snd c) = Pending
            \<and> unhandled (snd c) = 1)
    | _ \<Rightarrow> False)"
  by code_simp

section \<open>Properties of the scanner service: the abort registry\<close>

text \<open>
  \<open>left_by\<close> is the state a callback leaves, whether it returns or throws.
  \<open>keeps_registry\<close> says of the caller's callbacks that their \<open>onComplete\<close> leaves
  \<open>activeScans\<close> as it finds it: the map is private to the service.

  The two operations that remove an entry of \<open>activeScans\<close>: \<open>abortScan\<close>, and the
  completion of a scan, which is the step \<open>onComplete(results); resolve()\<close> of
  \<open>runScan\<close> under the options \<open>startScan\<close> built. \<open>removals sid xs w\<close> counts the
  operations of \<open>xs\<close>, run in order from \<open>w\<close>, that remove the entry of \<open>sid\<close>.
  \<open>one_port\<close> is a scan of one port, \<open>one_port_started\<close> and \<open>one_port_in_flight\<close> the
  state and the variables \<open>startScan\<close> leaves for it.
\<close>

definition left_by :: "'a + 'a \<Rightarrow> 'a" where
  "left_by x = (case x of Inl a \<Rightarrow> a | Inr a \<Rightarrow> a)"

definition keeps_registry :: "'u world ScanCallbacks \<Rightarrow> bool" where
  "keeps_registry callbacks =
     (\<forall>rs w. activeScans (left_by (ScanCallbacks.onComplete callbacks rs w)) = activeScans w)"

datatype 'u registry_op =
  Abort string | Completed ScanConfig "'u world ScanCallbacks" string nat scan_state

fun op_id :: "'u registry_op \<Rightarrow> string" where
  "op_id (Abort sid) = sid"
| "op_id (Completed config callbacks tgt k st) = scanId config"

fun op_keeps_registry :: "'u registry_op \<Rightarrow> bool" where
  "op_keeps_registry (Abort sid) = True"
| "op_keeps_registry (Completed config callbacks tgt k st) = keeps_registry callbacks"

fun run_op :: "'u registry_op \<Rightarrow> 'u world \<Rightarrow> bool \<times> 'u world" where
  "run_op (Abort sid) w = abortScan sid w"
| "run_op (Completed config callbacks tgt k st) w =
     (let w' = fst (left_by (complete (scan_options config callbacks tgt k) (w, st)))
      in (isActive (scanId config) w \<and> \<not> isActive (scanId config) w', w'))"

fun removals :: "string \<Rightarrow> 'u registry_op list \<Rightarrow> 'u world \<Rightarrow> nat" where
  "removals sid [] w = 0"
| "removals sid (x # xs) w =
     (if op_id x = sid \<and> fst (run_op x w) then 1 else 0) + removals sid xs (snd (run_op x w))"

definition one_port :: ScanConfig where
  "one_port =
     \<lparr>scanId = ''s1'', target = ''example.com'', ScanConfig.ports = [80],
      ScanConfig.concurrency = 10, ScanConfig.timeout = 400\<rparr>"

definition one_port_started :: "callback_event list world" where
  "one_port_started =
     world_init\<lparr>controllers := 1, activeScans := [''s1'' \<mapsto> 0],
                console := [LogScan ''s1'' ''example.com'' 1 10 400]\<rparr>"

definition one_port_in_flight :: scan_state where
  "one_port_in_flight =
     \<lparr>results = [], scanned = 0, index = 1, scanStart = 0, lastProgressTime = 0,
      in_flight = [80], outcome = Pending, unhandled = 0\<rparr>"

definition filtered_80 :: PortResult where
  "filtered_80 = \<lparr>PortResult.port = 80, status = Filtered, duration = 400, banner = None\<rparr>"

lemma abortScan_returns: "fst (abortScan sid w) = isActive sid w"
  by (cases "activeScans w sid") (simp_all add: abortScan_def isActive_def)

lemma abortScan_isActive:
  "isActive sid' (snd (abortScan sid w)) = (isActive sid' w \<and> sid' \<noteq> sid)"
  by (cases "activeScans w sid") (auto simp: abortScan_def isActive_def delete_scan_def)

lemma abortScan_signals:
  "activeScans w sid = Some k \<Longrightarrow> k \<in> aborted_signals (snd (abortScan sid w))"
  by (simp add: abortScan_def delete_scan_def)

lemma abortScan_inactive: "\<not> isActive sid w \<Longrightarrow> abortScan sid w = (False, w)"
  by (simp add: abortScan_def isActive_def)

lemma scan_onComplete_registry:
  assumes "keeps_registry callbacks"
  shows "activeScans (left_by (scan_onComplete sid callbacks rs w)) = (activeScans w)(sid := None)"
proof -
  from assms have "activeScans (left_by (ScanCallbacks.onComplete callbacks rs (snd (delete_scan sid w))))
      = activeScans (snd (delete_scan sid w))"
    by (simp add: keeps_registry_def)
  then show ?thesis
    by (simp add: scan_onComplete_def delete_scan_def)
qed

lemma complete_registry:
  assumes "keeps_registry callbacks"
  shows "activeScans (fst (left_by (complete (scan_options config callbacks tgt k) (w, st))))
           = (activeScans w)(scanId config := None)"
proof -
  have oc: "ScanOptions.onComplete (scan_options config callbacks tgt k)
              = scan_onComplete (scanId config) callbacks"
    by (simp add: scan_options_def)
  show ?thesis
  proof (cases "scan_onComplete (scanId config) callbacks (results st) w")
    case (Inl w')
    with scan_onComplete_registry[OF assms, of "scanId config" "results st" w] show ?thesis
      by (simp add: complete_def oc left_by_def)
  next
    case (Inr w')
    with scan_onComplete_registry[OF assms, of "scanId config" "results st" w] show ?thesis
      by (simp add: complete_def oc left_by_def)
  qed
qed

lemma complete_isActive:
  assumes "keeps_registry callbacks"
  shows "isActive sid (fst (left_by (complete (scan_options config callbacks tgt k) (w, st))))
           = (isActive sid w \<and> sid \<noteq> scanId config)"
  by (auto simp: isActive_def complete_registry[OF assms])

lemma run_op_returns:
  "op_keeps_registry x \<Longrightarrow> fst (run_op x w) = isActive (op_id x) w"
  by (cases x) (simp_all add: abortScan_returns Let_def complete_isActive)

lemma run_op_isActive:
  "op_keeps_registry x \<Longrightarrow>
     isActive sid (snd (run_op x w)) = (isActive sid w \<and> sid \<noteq> op_id x)"
  by (cases x) (simp_all add: abortScan_isActive Let_def complete_isActive)

lemma removals_inactive:
  "\<forall>x\<in>set xs. op_keeps_registry x \<Longrightarrow> \<not> isActive sid w \<Longrightarrow> removals sid xs w = 0"
  by (induction xs arbitrary: w) (simp_all add: run_op_returns run_op_isActive)

lemma removals_once:
  "\<forall>x\<in>set xs. op_keeps_registry x \<Longrightarrow>
     removals sid xs w = (if isActive sid w \<and> sid \<in> op_id ` set xs then 1 else 0)"
proof (induction xs arbitrary: w)
  case Nil
  show ?case by simp
next
  case (Cons x xs)
  then have kx: "op_keeps_registry x" and kxs: "\<forall>x\<in>set xs. op_keeps_registry x"
    by simp_all
  show ?case
  proof (cases "op_id x = sid")
    case True
    then have "\<not> isActive sid (snd (run_op x w))"
      by (simp add: run_op_isActive[OF kx])
    then have "removals sid xs (snd (run_op x w)) = 0"
      by (rule removals_inactive[OF kxs])
    with True show ?thesis
      by (simp add: run_op_returns[OF kx])
  next
    case False
    then have "isActive sid (snd (run_op x w)) = isActive sid w"
      by (auto simp: run_op_isActive[OF kx])
    with False Cons.IH[OF kxs, of "snd (run_op x w)"] show ?thesis
      by auto
  qed
qed

text \<open>The last probe of a scan that was not aborted settles.\<close>

lemma last_probe_world:
  assumes na: "\<not> signal_aborted opts w"
    and inf: "PortResult.port r \<in> set (in_flight st)"
    and last: "length (ScanOptions.ports opts) \<le> Suc (scanned st)"
    and res: "ScanOptions.onResult opts r w = Inr w1"
    and prog: "ScanOptions.onProgress opts (Suc (scanned st)) (length (ScanOptions.ports opts)) w1
                 = Inr w2"
  shows "fst (probe_settled opts r now (w, st)) =
           fst (left_by (complete opts
             (w2, st\<lparr>in_flight := remove1 (PortResult.port r) (in_flight st),
                    scanned := Suc (scanned st), results := results st @ [r],
                    lastProgressTime := now\<rparr>)))"
  using assms
  by (auto simp: probe_settled_def on_settled_def Let_def left_by_def split: sum.splits)

lemma natural_completion_removes:
  assumes "keeps_registry callbacks"
    and "\<not> signal_aborted (scan_options config callbacks tgt k) w"
    and "PortResult.port r \<in> set (in_flight st)"
    and "length (ScanConfig.ports config) \<le> Suc (scanned st)"
    and "ScanCallbacks.onResult callbacks r w = Inr w1"
    and "ScanCallbacks.onProgress callbacks (Suc (scanned st)) (length (ScanConfig.ports config)) w1
           = Inr w2"
  shows "\<not> isActive (scanId config)
           (fst (probe_settled (scan_options config callbacks tgt k) r now (w, st)))"
proof -
  let ?opts = "scan_options config callbacks tgt k"
  have o: "ScanOptions.ports ?opts = ScanConfig.ports config"
    "ScanOptions.onResult ?opts = ScanCallbacks.onResult callbacks"
    "ScanOptions.onProgress ?opts = ScanCallbacks.onProgress callbacks"
    by (simp_all add: scan_options_def)
  from last_probe_world[of ?opts w r st w1 w2 now] assms(2-6)
  have "fst (probe_settled ?opts r now (w, st)) =
           fst (left_by (complete ?opts
             (w2, st\<lparr>in_flight := remove1 (PortResult.port r) (in_flight st),
                    scanned := Suc (scanned st), results := results st @ [r],
                    lastProgressTime := now\<rparr>)))"
    by (simp add: o)
  then show ?thesis
    by (simp add: complete_isActive[OF assms(1)])
qed

lemma recorder_keeps_registry: "keeps_registry (recorder throws)"
  by (simp add: keeps_registry_def recorder_def record_call_def left_by_def)

lemma one_port_launch:
  "launch (scan_options one_port cbs ''example.com'' 0)
     \<lparr>results = [], scanned = 0, index = 0, scanStart = 0, lastProgressTime = 0,
      in_flight = [], outcome = Pending, unhandled = 0\<rparr>
   = one_port_in_flight"
  by (simp add: launch_step launch_stop scan_options_def one_port_def one_port_in_flight_def)

lemma one_port_runScan:
  assumes "0 \<notin> aborted_signals w"
  shows "runScan (scan_options one_port cbs ''example.com'' 0) 0 w = (w, one_port_in_flight)"
proof -
  let ?opts = "scan_options one_port cbs ''example.com'' 0"
  let ?ini = "\<lparr>results = [], scanned = 0, index = 0, scanStart = 0, lastProgressTime = 0,
      in_flight = [], outcome = Pending, unhandled = 0\<rparr>"
  have na: "\<not> signal_aborted ?opts w"
    using assms by (simp add: signal_aborted_def scan_options_def)
  have len: "length (ScanOptions.ports ?opts) = 1"
    by (simp add: scan_options_def one_port_def)
  have conc: "ScanOptions.concurrency ?opts = 10"
    by (simp add: scan_options_def one_port_def)
  have n: "nat (min (ScanOptions.concurrency ?opts) (int (length (ScanOptions.ports ?opts))))
             = Suc 0"
    by (simp add: len conc)
  have first: "next_probe ?opts (w, ?ini) = Inr (w, one_port_in_flight)"
    using na by (simp add: next_probe_def Let_def one_port_launch)
  have rn: "repeat_next
               (nat (min (ScanOptions.concurrency ?opts) (int (length (ScanOptions.ports ?opts)))))
               ?opts (w, ?ini) = Inr (w, one_port_in_flight)"
    by (simp only: n repeat_next.simps first sum.case)
  show ?thesis
    unfolding runScan_def Let_def rn
    by (simp add: len)
qed

lemma one_port_startScan:
  "startScan one_port (recorder (\<lambda>e. False)) 0 world_init =
     (Inr ''example.com'', one_port_started,
      Some (scan_options one_port (recorder (\<lambda>e. False)) ''example.com'' 0,
            one_port_in_flight))"
proof -
  have v: "validateTarget (sanitizeTarget (target one_port))"
    by (simp add: one_port_def sanitize_example_com validate_example_com)
  have t: "sanitizeTarget (target one_port) = ''example.com''"
    by (simp add: one_port_def sanitize_example_com)
  have na: "0 \<notin> aborted_signals one_port_started"
    by (simp add: one_port_started_def world_init_def)
  have o: "outcome one_port_in_flight \<noteq> Rejected"
    by (simp add: one_port_in_flight_def)
  have r: "runScan (scan_options one_port (recorder (\<lambda>e. False))
                     (sanitizeTarget (target one_port)) (controllers world_init)) 0
             (world_init\<lparr>controllers := controllers world_init + 1,
                activeScans := (activeScans world_init)(scanId one_port \<mapsto> controllers world_init),
                console := console world_init @
                  [LogScan (scanId one_port) (sanitizeTarget (target one_port))
                     (length (ScanConfig.ports one_port))
                     (max 10 (min (ScanConfig.concurrency one_port) 500))
                     (if length (ScanConfig.ports one_port) > 500
                      then min (ScanConfig.timeout one_port) 400
                      else min (ScanConfig.timeout one_port) 800)]\<rparr>)
           = (one_port_started, one_port_in_flight)"
  proof -
    have c0: "controllers world_init = 0"
      by (simp add: world_init_def)
    have w2: "world_init\<lparr>controllers := 0 + 1,
                activeScans := (activeScans world_init)(scanId one_port \<mapsto> 0),
                console := console world_init @
                  [LogScan (scanId one_port) ''example.com''
                     (length (ScanConfig.ports one_port))
                     (max 10 (min (ScanConfig.concurrency one_port) 500))
                     (if length (ScanConfig.ports one_port) > 500
                      then min (ScanConfig.timeout one_port) 400
                      else min (ScanConfig.timeout one_port) 800)]\<rparr>
              = one_port_started"
      by (simp add: world_init_def one_port_def one_port_started_def)
    show ?thesis
      unfolding t c0 unfolding w2 by (rule one_port_runScan [OF na])
  qed
  have c0: "controllers world_init = 0"
    by (simp add: world_init_def)
  from startScan_started [OF v r o] show ?thesis
    by (simp add: t c0)
qed

text \<open>
  C8: \<open>abortScan\<close> returns true exactly when the scan id has an entry; after it the id is
  not active, at once; a second \<open>abortScan\<close> on the id returns false and changes nothing;
  the signal of the aborted scan is set. When the last probe of a scan that was not
  aborted settles and \<open>onResult\<close> and \<open>onProgress\<close> return, the completion of
  \<open>runScan\<close> removes the entry of the scan. Over any sequence of aborts and completions
  the entry of a scan id is removed once, by the first operation on that id, if the id
  was active and the sequence holds such an operation, and never otherwise.
\<close>

theorem abort_registry:
  "fst (abortScan sid w) = isActive sid w
   \<and> \<not> isActive sid (snd (abortScan sid w))
   \<and> abortScan sid (snd (abortScan sid w)) = (False, snd (abortScan sid w))
   \<and> (\<forall>k. activeScans w sid = Some k \<longrightarrow> k \<in> aborted_signals (snd (abortScan sid w)))
   \<and> (keeps_registry callbacks
        \<and> \<not> signal_aborted (scan_options config callbacks tgt k) w0
        \<and> PortResult.port r \<in> set (in_flight st)
        \<and> length (ScanConfig.ports config) \<le> Suc (scanned st)
        \<and> ScanCallbacks.onResult callbacks r w0 = Inr w1
        \<and> ScanCallbacks.onProgress callbacks (Suc (scanned st))
              (length (ScanConfig.ports config)) w1 = Inr w2
        \<longrightarrow> \<not> isActive (scanId config)
               (fst (probe_settled (scan_options config callbacks tgt k) r now (w0, st))))
   \<and> ((\<forall>x\<in>set xs. op_keeps_registry x) \<longrightarrow>
        removals sid xs w = (if isActive sid w \<and> sid \<in> op_id ` set xs then 1 else 0))"
proof -
  have a: "fst (abortScan sid w) = isActive sid w"
    by (rule abortScan_returns)
  have b: "\<not> isActive sid (snd (abortScan sid w))"
    by (simp add: abortScan_isActive)
  from b have c: "abortScan sid (snd (abortScan sid w)) = (False, snd (abortScan sid w))"
    by (rule abortScan_inactive)
  have d: "\<forall>k. activeScans w sid = Some k \<longrightarrow> k \<in> aborted_signals (snd (abortScan sid w))"
    by (simp add: abortScan_signals)
  have e: "keeps_registry callbacks
        \<and> \<not> signal_aborted (scan_options config callbacks tgt k) w0
        \<and> PortResult.port r \<in> set (in_flight st)
        \<and> length (ScanConfig.ports config) \<le> Suc (scanned st)
        \<and> ScanCallbacks.onResult callbacks r w0 = Inr w1
        \<and> ScanCallbacks.onProgress callbacks (Suc (scanned st))
              (length (ScanConfig.ports config)) w1 = Inr w2
        \<longrightarrow> \<not> isActive (scanId config)
               (fst (probe_settled (scan_options config callbacks tgt k) r now (w0, st)))"
    using natural_completion_removes by blast
  have f: "(\<forall>x\<in>set xs. op_keeps_registry x) \<longrightarrow>
        removals sid xs w = (if isActive sid w \<and> sid \<in> op_id ` set xs then 1 else 0)"
    using removals_once by blast
  from a b c d e f show ?thesis by blast
qed

theorem abort_registry_witness:
  "startScan one_port (recorder (\<lambda>e. False)) 0 world_init =
     (Inr ''example.com'', one_port_started,
      Some (scan_options one_port (recorder (\<lambda>e. False)) ''example.com'' 0,
            one_port_in_flight))
   \<and> isActive ''s1'' one_port_started
   \<and> activeScans one_port_started ''s1'' = Some 0
   \<and> 0 \<in> aborted_signals (snd (abortScan ''s1'' one_port_started))
   \<and> fst (abortScan ''s1'' one_port_started)
   \<and> \<not> isActive ''s1''
        (fst (probe_settled (scan_options one_port (recorder (\<lambda>e. False)) ''example.com'' 0)
                filtered_80 400 (one_port_started, one_port_in_flight)))
   \<and> removals ''s1''
        [Abort ''s1'',
         Completed one_port (recorder (\<lambda>e. False)) ''example.com'' 0 one_port_in_flight,
         Abort ''s1'']
        one_port_started = 1
   \<and> removals ''s1''
        [Completed one_port (recorder (\<lambda>e. False)) ''example.com'' 0 one_port_in_flight,
         Abort ''s1'']
        one_port_started = 1"
proof -
  let ?cb = "recorder (\<lambda>e. False)"
  let ?xs = "[Abort ''s1'',
         Completed one_port ?cb ''example.com'' 0 one_port_in_flight, Abort ''s1'']"
  let ?ys = "[Completed one_port ?cb ''example.com'' 0 one_port_in_flight, Abort ''s1'']"
  let ?w1 = "one_port_started\<lparr>caller := [OnResult filtered_80]\<rparr>"
  let ?w2 = "one_port_started\<lparr>caller := [OnResult filtered_80, OnProgress 1 1]\<rparr>"
  note T = abort_registry
    [of "''s1''" one_port_started ?cb one_port "''example.com''" 0 one_port_started
        filtered_80 one_port_in_flight ?w1 ?w2 400 ?xs]
  note U = abort_registry
    [of "''s1''" one_port_started ?cb one_port "''example.com''" 0 one_port_started
        filtered_80 one_port_in_flight ?w1 ?w2 400 ?ys]
  have act: "isActive ''s1'' one_port_started"
    by (simp add: isActive_def one_port_started_def)
  have h: "activeScans one_port_started ''s1'' = Some 0"
    by (simp add: one_port_started_def)
  have rest: "\<not> signal_aborted (scan_options one_port ?cb ''example.com'' 0) one_port_started
        \<and> PortResult.port filtered_80 \<in> set (in_flight one_port_in_flight)
        \<and> length (ScanConfig.ports one_port) \<le> Suc (scanned one_port_in_flight)
        \<and> ScanCallbacks.onResult ?cb filtered_80 one_port_started = Inr ?w1
        \<and> ScanCallbacks.onProgress ?cb (Suc (scanned one_port_in_flight))
              (length (ScanConfig.ports one_port)) ?w1 = Inr ?w2"
    by (simp add: signal_aborted_def scan_options_def
        one_port_started_def one_port_in_flight_def filtered_80_def one_port_def
        recorder_def record_call_def world_init_def)
  from recorder_keeps_registry [of "\<lambda>e. False"] rest
  have hyp: "keeps_registry ?cb
        \<and> \<not> signal_aborted (scan_options one_port ?cb ''example.com'' 0) one_port_started
        \<and> PortResult.port filtered_80 \<in> set (in_flight one_port_in_flight)
        \<and> length (ScanConfig.ports one_port) \<le> Suc (scanned one_port_in_flight)
        \<and> ScanCallbacks.onResult ?cb filtered_80 one_port_started = Inr ?w1
        \<and> ScanCallbacks.onProgress ?cb (Suc (scanned one_port_in_flight))
              (length (ScanConfig.ports one_port)) ?w1 = Inr ?w2"
    by (rule conjI)
  have kx: "\<forall>x\<in>set ?xs. op_keeps_registry x"
    by (simp add: recorder_keeps_registry)
  have ky: "\<forall>x\<in>set ?ys. op_keeps_registry x"
    by (simp add: recorder_keeps_registry)
  have memx: "''s1'' \<in> op_id ` set ?xs"
    by (simp add: one_port_def)
  have memy: "''s1'' \<in> op_id ` set ?ys"
    by (simp add: one_port_def)
  have sid: "scanId one_port = ''s1''"
    by (simp add: one_port_def)
  from T h have sig: "0 \<in> aborted_signals (snd (abortScan ''s1'' one_port_started))"
    by blast
  from T act have ret: "fst (abortScan ''s1'' one_port_started)"
    by blast
  from T hyp have "\<not> isActive (scanId one_port)
        (fst (probe_settled (scan_options one_port ?cb ''example.com'' 0)
                filtered_80 400 (one_port_started, one_port_in_flight)))"
    by blast
  then have nat: "\<not> isActive ''s1''
        (fst (probe_settled (scan_options one_port ?cb ''example.com'' 0)
                filtered_80 400 (one_port_started, one_port_in_flight)))"
    by (simp only: sid simp_thms)
  from T kx have "removals ''s1'' ?xs one_port_started =
      (if isActive ''s1'' one_port_started \<and> ''s1'' \<in> op_id ` set ?xs then 1 else 0)"
    by blast
  with act memx have oncex: "removals ''s1'' ?xs one_port_started = 1"
    by (simp only: simp_thms if_True)
  from U ky have "removals ''s1'' ?ys one_port_started =
      (if isActive ''s1'' one_port_started \<and> ''s1'' \<in> op_id ` set ?ys then 1 else 0)"
    by blast
  with act memy have oncey: "removals ''s1'' ?ys one_port_started = 1"
    by (simp only: simp_thms if_True)
  from one_port_startScan act h sig ret nat oncex oncey show ?thesis by blast
qed

end
